theory Spec2Isabelle
  imports Main
begin

section \<open>The browser runtime as an explicit environment\<close>

text \<open>
  \<^verbatim>\<open>uipath_automation.py\<close> drives a Playwright page. Every call into Playwright is a
  call of the environment: it returns a value or raises, and it may change the page.
  The environment is a parameter \<open>R\<close> of every definition: a deterministic machine over a
  world \<open>'w\<close> that answers each call. The model records the calls that were issued in a
  trace, so that what the code did (which selectors it probed, what it filled or clicked,
  whether it released the browser) can be stated.

  Python distinguishes \<^verbatim>\<open>except:\<close> (catches everything), \<^verbatim>\<open>except Exception\<close> and
  \<^verbatim>\<open>except KeyboardInterrupt\<close>; the source uses all three. \<open>Exception\<close> stands for any
  instance of \<^verbatim>\<open>Exception\<close> (Playwright errors, \<^verbatim>\<open>AttributeError\<close>, \<^verbatim>\<open>EOFError\<close>),
  \<open>KeyboardInterrupt\<close> for itself and \<open>BaseException\<close> for the remaining classes outside
  \<^verbatim>\<open>Exception\<close> (\<^verbatim>\<open>SystemExit\<close>, \<^verbatim>\<open>GeneratorExit\<close>). Exceptions are raised at calls of the
  environment (and by an attribute access on \<^verbatim>\<open>None\<close>); logging and printing are not
  modelled.
\<close>

datatype exn = Exception | KeyboardInterrupt | BaseException

type_synonym 'a res = "exn + 'a"

text \<open>
  A Playwright locator is a lazy description of elements: \<^verbatim>\<open>page.locator(sel)\<close>,
  \<^verbatim>\<open>loc.first\<close>, \<^verbatim>\<open>loc.locator(sel)\<close> and \<^verbatim>\<open>loc.nth(i)\<close> (the items of \<^verbatim>\<open>loc.all()\<close>).
  Building one never touches the page.
\<close>

datatype locator =
    Sel string
  | First locator
  | Within locator string
  | Nth locator nat

datatype call =
    SyncPlaywrightStart
  | Launch bool nat
  | NewContext
  | NewPage
  | SetDefaultTimeout int
  | Goto string
  | WaitForLoadState "nat option"
  | IsVisible locator nat
  | Fill string string
  | Click string
  | LocatorClick locator
  | KeyboardPress string
  | WaitForTimeout nat
  | LocatorAll locator
  | LocatorCount locator
  | InnerText locator
  | PageUrl
  | Screenshot string
  | PageClose
  | ContextClose
  | BrowserClose
  | PlaywrightStop
  | StdinInput

record 'w runtime =
  unit_op :: "call \<Rightarrow> 'w \<Rightarrow> unit res \<times> 'w"
  bool_op :: "call \<Rightarrow> 'w \<Rightarrow> bool res \<times> 'w"
  nat_op :: "call \<Rightarrow> 'w \<Rightarrow> nat res \<times> 'w"
  str_op :: "call \<Rightarrow> 'w \<Rightarrow> string res \<times> 'w"

text \<open>
  The state threaded through the program: the world, the trace of calls issued so far,
  and a ghost counter of the invocations of \<^verbatim>\<open>close()\<close> (which issues no call at all when
  no handle is set).
\<close>

record 'w st =
  world :: 'w
  trace :: "call list"
  close_calls :: nat

definition call_unit :: "'w runtime \<Rightarrow> call \<Rightarrow> 'w st \<Rightarrow> unit res \<times> 'w st" where
  "call_unit R c s =
     (case unit_op R c (world s) of (r, w) \<Rightarrow> (r, s\<lparr>world := w, trace := trace s @ [c]\<rparr>))"

definition call_bool :: "'w runtime \<Rightarrow> call \<Rightarrow> 'w st \<Rightarrow> bool res \<times> 'w st" where
  "call_bool R c s =
     (case bool_op R c (world s) of (r, w) \<Rightarrow> (r, s\<lparr>world := w, trace := trace s @ [c]\<rparr>))"

definition call_nat :: "'w runtime \<Rightarrow> call \<Rightarrow> 'w st \<Rightarrow> nat res \<times> 'w st" where
  "call_nat R c s =
     (case nat_op R c (world s) of (r, w) \<Rightarrow> (r, s\<lparr>world := w, trace := trace s @ [c]\<rparr>))"

definition call_str :: "'w runtime \<Rightarrow> call \<Rightarrow> 'w st \<Rightarrow> string res \<times> 'w st" where
  "call_str R c s =
     (case str_op R c (world s) of (r, w) \<Rightarrow> (r, s\<lparr>world := w, trace := trace s @ [c]\<rparr>))"

section \<open>The automation object\<close>

text \<open>
  The fields of \<^verbatim>\<open>UiPathAutomation\<close> after \<^verbatim>\<open>__init__\<close>. The configuration file and the
  environment variables are already evaluated: \<open>slow_mo\<close> is
  \<^verbatim>\<open>config.get('browser', {}).get('slow_mo', 0)\<close>. The four handles are \<^verbatim>\<open>None\<close> until
  \<^verbatim>\<open>start_browser\<close> sets them.
\<close>

datatype handle = Handle

record automation =
  url :: string
  username :: string
  password :: string
  headless :: bool
  timeout :: int
  slow_mo :: nat
  playwright :: "handle option"
  browser :: "handle option"
  browser_context :: "handle option"
  page :: "handle option"

text \<open>
  A method call on \<^verbatim>\<open>self.page\<close>: when the page is \<^verbatim>\<open>None\<close> the attribute access
  raises \<^verbatim>\<open>AttributeError\<close> and the environment is not called.
\<close>

definition page_unit :: "'w runtime \<Rightarrow> automation \<Rightarrow> call \<Rightarrow> 'w st \<Rightarrow> unit res \<times> 'w st" where
  "page_unit R self c s = (if page self = None then (Inl Exception, s) else call_unit R c s)"

definition page_bool :: "'w runtime \<Rightarrow> automation \<Rightarrow> call \<Rightarrow> 'w st \<Rightarrow> bool res \<times> 'w st" where
  "page_bool R self c s = (if page self = None then (Inl Exception, s) else call_bool R c s)"

definition page_nat :: "'w runtime \<Rightarrow> automation \<Rightarrow> call \<Rightarrow> 'w st \<Rightarrow> nat res \<times> 'w st" where
  "page_nat R self c s = (if page self = None then (Inl Exception, s) else call_nat R c s)"

definition page_str :: "'w runtime \<Rightarrow> automation \<Rightarrow> call \<Rightarrow> 'w st \<Rightarrow> string res \<times> 'w st" where
  "page_str R self c s = (if page self = None then (Inl Exception, s) else call_str R c s)"

text \<open>\<^verbatim>\<open>try: ... except Exception: ...\<close>: only \<open>Exception\<close> reaches the handler.\<close>

definition catch_Exception :: "'a res \<times> 's \<Rightarrow> ('s \<Rightarrow> 'a res \<times> 's) \<Rightarrow> 'a res \<times> 's" where
  "catch_Exception r h = (case r of (Inl Exception, s) \<Rightarrow> h s | _ \<Rightarrow> r)"

section \<open>The selector loop\<close>

text \<open>
  Seven loops of the source have one shape:
  \<^verbatim>\<open>
  for selector in selectors:
      try:
          if self.page.locator(selector).is_visible(timeout=t):
              <actions on selector>
              <break or return>
      except:
          continue
  \<close>
  \<open>run_actions\<close> performs the actions in order and stops at the first one that raises.
  \<open>attempt\<close> is one iteration: \<open>True\<close> when the probe answered visible and every
  action returned; a probe or an action that raises (anything: the \<^verbatim>\<open>except\<close> is bare)
  makes the iteration fail and the loop go on. \<open>try_selectors\<close> is the loop; its result
  is the flag the source sets before \<^verbatim>\<open>break\<close> (\<^verbatim>\<open>username_filled\<close>,
  \<^verbatim>\<open>password_filled\<close>, \<^verbatim>\<open>login_clicked\<close>) or the fact that it returned from inside.
\<close>

fun run_actions :: "'w runtime \<Rightarrow> automation \<Rightarrow> call list \<Rightarrow> 'w st \<Rightarrow> unit res \<times> 'w st" where
  "run_actions R self [] s = (Inr (), s)"
| "run_actions R self (c # cs) s =
     (case page_unit R self c s of
        (Inl e, s1) \<Rightarrow> (Inl e, s1)
      | (Inr _, s1) \<Rightarrow> run_actions R self cs s1)"

definition attempt ::
  "'w runtime \<Rightarrow> automation \<Rightarrow> nat \<Rightarrow> (string \<Rightarrow> call list) \<Rightarrow> string \<Rightarrow> 'w st \<Rightarrow> bool \<times> 'w st" where
  "attempt R self t acts selector s =
     (case page_bool R self (IsVisible (Sel selector) t) s of
        (Inr True, s1) \<Rightarrow>
          (case run_actions R self (acts selector) s1 of
             (Inr _, s2) \<Rightarrow> (True, s2)
           | (Inl _, s2) \<Rightarrow> (False, s2))
      | (Inr False, s1) \<Rightarrow> (False, s1)
      | (Inl _, s1) \<Rightarrow> (False, s1))"

fun try_selectors ::
  "'w runtime \<Rightarrow> automation \<Rightarrow> nat \<Rightarrow> (string \<Rightarrow> call list) \<Rightarrow> string list \<Rightarrow> 'w st \<Rightarrow> bool \<times> 'w st" where
  "try_selectors R self t acts [] s = (False, s)"
| "try_selectors R self t acts (selector # rest) s =
     (case attempt R self t acts selector s of
        (True, s1) \<Rightarrow> (True, s1)
      | (False, s1) \<Rightarrow> try_selectors R self t acts rest s1)"

section \<open>Session state: \<^verbatim>\<open>_is_logged_in\<close>\<close>

definition logged_in_indicators :: "string list" where
  \<open>logged_in_indicators =
     [''text=Jobs'', ''text=Processes'', ''text=Robots'', ''text=Orchestrator'',
      ''[data-testid*="menu"]'', ''nav'', ''[role="navigation"]'']\<close>

definition login_indicators :: "string list" where
  \<open>login_indicators = [''text=Sign in'', ''text=Login'', ''input[type="password"]'']\<close>

text \<open>
  Both loops return from inside on a visible indicator and swallow every exception, so
  the outer \<^verbatim>\<open>except Exception: return False\<close> of the source is never reached and the
  method always returns a boolean. With no indicator visible it returns \<^verbatim>\<open>True\<close>.
\<close>

definition is_logged_in :: "'w runtime \<Rightarrow> automation \<Rightarrow> 'w st \<Rightarrow> bool \<times> 'w st" where
  "is_logged_in R self s =
     (case try_selectors R self 2000 (\<lambda>_. []) logged_in_indicators s of
        (True, s1) \<Rightarrow> (True, s1)
      | (False, s1) \<Rightarrow>
          (case try_selectors R self 1000 (\<lambda>_. []) login_indicators s1 of
             (True, s2) \<Rightarrow> (False, s2)
           | (False, s2) \<Rightarrow> (True, s2)))"

section \<open>\<^verbatim>\<open>login\<close>\<close>

definition username_selectors :: "string list" where
  \<open>username_selectors =
     [''input[name="email"]'', ''input[name="username"]'', ''input[type="email"]'',
      ''input[type="text"][placeholder*="email" i]'', ''input[placeholder*="username" i]'']\<close>

definition password_selectors :: "string list" where
  \<open>password_selectors = [''input[name="password"]'', ''input[type="password"]'']\<close>

definition login_button_selectors :: "string list" where
  \<open>login_button_selectors =
     [''button[type="submit"]'', ''button:has-text("Sign in")'', ''button:has-text("Login")'',
      ''button:has-text("Log in")'', ''input[type="submit"]'']\<close>

text \<open>The branch \<^verbatim>\<open>if self.username and self.password:\<close> of \<^verbatim>\<open>login\<close>.\<close>

definition login_form :: "'w runtime \<Rightarrow> automation \<Rightarrow> 'w st \<Rightarrow> bool res \<times> 'w st" where
  "login_form R self s =
     (case try_selectors R self 2000 (\<lambda>selector. [Fill selector (username self)])
             username_selectors s of
        (False, s1) \<Rightarrow> (Inr False, s1)
      | (True, s1) \<Rightarrow>
     (case try_selectors R self 2000 (\<lambda>selector. [Fill selector (password self)])
             password_selectors s1 of
        (False, s2) \<Rightarrow> (Inr False, s2)
      | (True, s2) \<Rightarrow>
     (case try_selectors R self 2000 (\<lambda>selector. [Click selector])
             login_button_selectors s2 of
        (login_clicked, s3) \<Rightarrow>
     (case (if login_clicked then (Inr (), s3)
            else page_unit R self (KeyboardPress ''Enter'') s3) of
        (Inl e, s4) \<Rightarrow> (Inl e, s4)
      | (Inr _, s4) \<Rightarrow>
     (case page_unit R self (WaitForLoadState (Some 10000)) s4 of
        (Inl e, s5) \<Rightarrow> (Inl e, s5)
      | (Inr _, s5) \<Rightarrow>
     (case is_logged_in R self s5 of (ok, s6) \<Rightarrow> (Inr ok, s6)))))))"

definition login :: "'w runtime \<Rightarrow> automation \<Rightarrow> 'w st \<Rightarrow> bool res \<times> 'w st" where
  "login R self s =
     catch_Exception
       (case page_unit R self (Goto (url self)) s of
          (Inl e, s1) \<Rightarrow> (Inl e, s1)
        | (Inr _, s1) \<Rightarrow>
       (case page_unit R self (WaitForLoadState None) s1 of
          (Inl e, s2) \<Rightarrow> (Inl e, s2)
        | (Inr _, s2) \<Rightarrow>
       (case is_logged_in R self s2 of
          (True, s3) \<Rightarrow> (Inr True, s3)
        | (False, s3) \<Rightarrow>
            if username self \<noteq> [] \<and> password self \<noteq> [] then login_form R self s3
            else (Inr False, s3))))
       (\<lambda>s'. (Inr False, s'))"

section \<open>\<^verbatim>\<open>navigate_to_jobs\<close>\<close>

definition job_links :: "string list" where
  \<open>job_links =
     [''a:has-text("Jobs")'', ''a:has-text("Processes")'', ''a[href*="/jobs"]'',
      ''a[href*="/processes"]'', ''button:has-text("Jobs")'', ''button:has-text("Processes")'']\<close>

text \<open>Python's \<^verbatim>\<open>sub in text\<close> on strings, and \<^verbatim>\<open>text.rstrip('/')\<close>.\<close>

fun contains :: "string \<Rightarrow> string \<Rightarrow> bool" where
  "contains sub [] = (sub = [])"
| "contains sub (c # cs) = (take (length sub) (c # cs) = sub \<or> contains sub cs)"

definition rstrip_slash :: "string \<Rightarrow> string" where
  "rstrip_slash text = rev (dropWhile (\<lambda>c. c = CHR ''/'') (rev text))"

text \<open>
  The link loop returns from the method after a click and the wait that follows it. When
  no link resolves, \<^verbatim>\<open>self.page.url\<close> is read once for \<^verbatim>\<open>'/jobs'\<close> and, the
  \<^verbatim>\<open>or\<close> being lazy, a second time for \<^verbatim>\<open>'/processes'\<close>.
\<close>

definition navigate_to_jobs :: "'w runtime \<Rightarrow> automation \<Rightarrow> 'w st \<Rightarrow> unit res \<times> 'w st" where
  "navigate_to_jobs R self s =
     catch_Exception
       (case try_selectors R self 2000 (\<lambda>link_selector. [Click link_selector, WaitForLoadState None])
               job_links s of
          (True, s1) \<Rightarrow> (Inr (), s1)
        | (False, s1) \<Rightarrow>
       (case page_str R self PageUrl s1 of
          (Inl e, s2) \<Rightarrow> (Inl e, s2)
        | (Inr u, s2) \<Rightarrow>
            if contains ''/jobs'' u then (Inr (), s2)
            else
       (case page_str R self PageUrl s2 of
          (Inl e, s3) \<Rightarrow> (Inl e, s3)
        | (Inr u', s3) \<Rightarrow>
            if contains ''/processes'' u' then (Inr (), s3)
            else
       (case page_unit R self (Goto (rstrip_slash (url self) @ ''/jobs'')) s3 of
          (Inl e, s4) \<Rightarrow> (Inl e, s4)
        | (Inr _, s4) \<Rightarrow> page_unit R self (WaitForLoadState None) s4))))
       (\<lambda>s'. (Inr (), s'))"

section \<open>\<^verbatim>\<open>list_jobs\<close>\<close>

record job =
  name :: string
  index :: nat
  element :: locator

definition job_item_selectors :: "string list" where
  \<open>job_item_selectors =
     [''tr[data-testid*="job"]'', ''tr[data-testid*="process"]'', ''div[data-testid*="job"]'',
      ''div[data-testid*="process"]'', ''.job-row'', ''.process-row'', ''tbody tr'',
      ''[class*="job"]'', ''[class*="process"]'']\<close>

definition name_locator :: "locator \<Rightarrow> locator" where
  \<open>name_locator row =
     First (Within row ''td:first-child, [class*="name"], [class*="title"]'')\<close>

text \<open>
  \<^verbatim>\<open>str.strip()\<close>: the characters for which \<^verbatim>\<open>str.isspace()\<close> holds are removed at
  both ends. A \<open>char\<close> is read as a code point below 256; there \<^verbatim>\<open>isspace\<close> holds for
  tab, line feed, vertical tab, form feed, carriage return, the four separators 28 to 31,
  the space, the next-line character U+0085 and the no-break space U+00A0. Text with code
  points from 256 on is outside the model.
\<close>

definition isspace :: "char \<Rightarrow> bool" where
  "isspace c = (of_char c \<in> {9, 10, 11, 12, 13, 28, 29, 30, 31, 32, 133, 160 :: nat})"

definition strip :: "string \<Rightarrow> string" where
  "strip text = rev (dropWhile isspace (rev (dropWhile isspace text)))"

text \<open>
  The inner loop over \<^verbatim>\<open>enumerate(elements[:50])\<close>. The rows are locators already, so
  \<^verbatim>\<open>self.page\<close> is not read again. A row whose \<^verbatim>\<open>count()\<close> or \<^verbatim>\<open>inner_text()\<close>
  raises, whose name has no match, or whose text is empty after \<^verbatim>\<open>strip()\<close>, adds
  nothing and the loop goes on with the next row.
\<close>

fun extract_rows ::
  "'w runtime \<Rightarrow> (nat \<times> locator) list \<Rightarrow> job list \<Rightarrow> 'w st \<Rightarrow> job list \<times> 'w st" where
  "extract_rows R [] jobs s = (jobs, s)"
| "extract_rows R ((i, row) # rest) jobs s =
     (case call_nat R (LocatorCount (name_locator row)) s of
        (Inl _, s1) \<Rightarrow> extract_rows R rest jobs s1
      | (Inr n, s1) \<Rightarrow>
          if n > 0 then
            (case call_str R (InnerText (name_locator row)) s1 of
               (Inl _, s2) \<Rightarrow> extract_rows R rest jobs s2
             | (Inr text, s2) \<Rightarrow>
                 if strip text \<noteq> []
                 then extract_rows R rest
                        (jobs @ [\<lparr>name = strip text, index = i, element = row\<rparr>]) s2
                 else extract_rows R rest jobs s2)
          else extract_rows R rest jobs s1)"




text \<open>
  The outer loop over \<^verbatim>\<open>job_item_selectors\<close>, with the accumulator \<^verbatim>\<open>jobs\<close> of the
  source. \<^verbatim>\<open>locator.all()\<close> counts the matches and returns \<^verbatim>\<open>nth(0)\<close> ...
  \<^verbatim>\<open>nth(n - 1)\<close>. The loop is left as soon as \<^verbatim>\<open>jobs\<close> is not empty.
\<close>

fun scan_selectors ::
  "'w runtime \<Rightarrow> automation \<Rightarrow> string list \<Rightarrow> job list \<Rightarrow> 'w st \<Rightarrow> job list \<times> 'w st" where
  "scan_selectors R self [] jobs s = (jobs, s)"
| "scan_selectors R self (selector # rest) jobs s =
     (case page_nat R self (LocatorAll (Sel selector)) s of
        (Inl _, s1) \<Rightarrow> scan_selectors R self rest jobs s1
      | (Inr n, s1) \<Rightarrow>
          if n > 0 then
            (case extract_rows R (enumerate 0 (take 50 (map (Nth (Sel selector)) [0..<n]))) jobs s1 of
               (jobs', s2) \<Rightarrow>
                 if jobs' \<noteq> [] then (jobs', s2) else scan_selectors R self rest jobs' s2)
          else scan_selectors R self rest jobs s1)"

definition list_jobs :: "'w runtime \<Rightarrow> automation \<Rightarrow> 'w st \<Rightarrow> job list res \<times> 'w st" where
  "list_jobs R self s =
     (case navigate_to_jobs R self s of
        (Inl e, s1) \<Rightarrow> (Inl e, s1)
      | (Inr _, s1) \<Rightarrow>
     (case page_unit R self (WaitForTimeout 2000) s1 of
        (Inl e, s2) \<Rightarrow> (Inl e, s2)
      | (Inr _, s2) \<Rightarrow>
     (case scan_selectors R self job_item_selectors [] s2 of
        (jobs, s3) \<Rightarrow>
          if jobs = [] then
            (case page_str R self PageUrl s3 of
               (Inl e, s4) \<Rightarrow> (Inl e, s4)
             | (Inr _, s4) \<Rightarrow>
            (case page_unit R self (Screenshot ''jobs_page_debug.png'') s4 of
               (Inl e, s5) \<Rightarrow> (Inl e, s5)
             | (Inr _, s5) \<Rightarrow> (Inr jobs, s5)))
          else (Inr jobs, s3))))"

section \<open>\<^verbatim>\<open>run_job\<close> and \<^verbatim>\<open>run_all_jobs\<close>\<close>

definition play_button_selectors :: "string \<Rightarrow> string list" where
  \<open>play_button_selectors job_name =
     [''button:has-text("'' @ job_name @ ''") + button[aria-label*="play" i]'',
      ''button:has-text("'' @ job_name @ ''") + button[aria-label*="run" i]'',
      ''tr:has-text("'' @ job_name @ ''") button[aria-label*="play" i]'',
      ''tr:has-text("'' @ job_name @ ''") button[aria-label*="run" i]'',
      ''[data-testid*="job"]:has-text("'' @ job_name @ ''") button:has-text("Play")'',
      ''[data-testid*="job"]:has-text("'' @ job_name @ ''") button:has-text("Run")'',
      ''button[title*="play" i]:near(:text="'' @ job_name @ ''")'',
      ''button[title*="run" i]:near(:text="'' @ job_name @ ''")'']\<close>

definition job_row :: "string \<Rightarrow> locator" where
  \<open>job_row job_name =
     First (Sel (''tr:has-text("'' @ job_name @ ''"), div:has-text("'' @ job_name @ ''")''))\<close>

definition play_button :: "string \<Rightarrow> locator" where
  \<open>play_button job_name =
     First (Within (job_row job_name)
       (''button[aria-label*="play" i], button[aria-label*="run" i], '' @
        ''button:has-text("Play"), button:has-text("Run"), '' @
        ''button[title*="play" i], button[title*="run" i], '' @
        ''[class*="play"], [class*="run"]''))\<close>

text \<open>
  The body of the \<^verbatim>\<open>try\<close> of \<^verbatim>\<open>run_job\<close>: the row, then the button inside the row. Both
  \<^verbatim>\<open>else\<close> branches return \<^verbatim>\<open>False\<close>.
\<close>

definition row_pass :: "'w runtime \<Rightarrow> automation \<Rightarrow> string \<Rightarrow> 'w st \<Rightarrow> bool res \<times> 'w st" where
  "row_pass R self job_name s =
     (case page_bool R self (IsVisible (job_row job_name) 5000) s of
        (Inl e, s1) \<Rightarrow> (Inl e, s1)
      | (Inr False, s1) \<Rightarrow> (Inr False, s1)
      | (Inr True, s1) \<Rightarrow>
     (case call_bool R (IsVisible (play_button job_name) 2000) s1 of
        (Inl e, s2) \<Rightarrow> (Inl e, s2)
      | (Inr False, s2) \<Rightarrow> (Inr False, s2)
      | (Inr True, s2) \<Rightarrow>
     (case call_unit R (LocatorClick (play_button job_name)) s2 of
        (Inl e, s3) \<Rightarrow> (Inl e, s3)
      | (Inr _, s3) \<Rightarrow>
     (case page_unit R self (WaitForTimeout 2000) s3 of
        (Inl e, s4) \<Rightarrow> (Inl e, s4)
      | (Inr _, s4) \<Rightarrow> (Inr True, s4)))))"

text \<open>The loop of the \<^verbatim>\<open>except Exception\<close> handler over \<^verbatim>\<open>play_button_selectors\<close>.\<close>

definition fallback_pass :: "'w runtime \<Rightarrow> automation \<Rightarrow> string \<Rightarrow> 'w st \<Rightarrow> bool \<times> 'w st" where
  "fallback_pass R self job_name s =
     try_selectors R self 2000 (\<lambda>selector. [Click selector, WaitForTimeout 2000])
       (play_button_selectors job_name) s"

definition run_job :: "'w runtime \<Rightarrow> automation \<Rightarrow> string \<Rightarrow> 'w st \<Rightarrow> bool res \<times> 'w st" where
  "run_job R self job_name s =
     (case navigate_to_jobs R self s of
        (Inl e, s1) \<Rightarrow> (Inl e, s1)
      | (Inr _, s1) \<Rightarrow>
     (case page_unit R self (WaitForTimeout 2000) s1 of
        (Inl e, s2) \<Rightarrow> (Inl e, s2)
      | (Inr _, s2) \<Rightarrow>
          catch_Exception (row_pass R self job_name s2)
            (\<lambda>s3. case fallback_pass R self job_name s3 of (ok, s4) \<Rightarrow> (Inr ok, s4))))"

text \<open>
  \<^verbatim>\<open>results[job_name] = ...\<close> on a dictionary, which keeps insertion order: a key that
  is present keeps its place.
\<close>

fun dict_set :: "(string \<times> bool) list \<Rightarrow> string \<Rightarrow> bool \<Rightarrow> (string \<times> bool) list" where
  "dict_set [] k v = [(k, v)]"
| "dict_set ((k', v') # kvs) k v = (if k' = k then (k, v) # kvs else (k', v') # dict_set kvs k v)"

fun run_each ::
  "'w runtime \<Rightarrow> automation \<Rightarrow> job list \<Rightarrow> (string \<times> bool) list \<Rightarrow> 'w st \<Rightarrow>
     (string \<times> bool) list res \<times> 'w st" where
  "run_each R self [] results s = (Inr results, s)"
| "run_each R self (j # rest) results s =
     (case run_job R self (name j) s of
        (Inl e, s1) \<Rightarrow> (Inl e, s1)
      | (Inr ok, s1) \<Rightarrow>
     (case page_unit R self (WaitForTimeout 1000) s1 of
        (Inl e, s2) \<Rightarrow> (Inl e, s2)
      | (Inr _, s2) \<Rightarrow> run_each R self rest (dict_set results (name j) ok) s2))"

definition run_all_jobs ::
  "'w runtime \<Rightarrow> automation \<Rightarrow> 'w st \<Rightarrow> (string \<times> bool) list res \<times> 'w st" where
  "run_all_jobs R self s =
     (case list_jobs R self s of
        (Inl e, s1) \<Rightarrow> (Inl e, s1)
      | (Inr jobs, s1) \<Rightarrow> run_each R self jobs [] s1)"

section \<open>\<^verbatim>\<open>start_browser\<close> and \<^verbatim>\<open>close\<close>\<close>

text \<open>
  \<^verbatim>\<open>start_browser\<close> assigns the handles one after the other; when a step raises, the
  handles assigned before it stay set and the later ones stay \<^verbatim>\<open>None\<close>.
\<close>

definition start_browser ::
  "'w runtime \<Rightarrow> automation \<Rightarrow> 'w st \<Rightarrow> unit res \<times> automation \<times> 'w st" where
  "start_browser R self s =
     (case call_unit R SyncPlaywrightStart s of
        (Inl e, s1) \<Rightarrow> (Inl e, self, s1)
      | (Inr _, s1) \<Rightarrow>
     (let self1 = self\<lparr>playwright := Some Handle\<rparr> in
      case call_unit R (Launch (headless self1) (slow_mo self1)) s1 of
        (Inl e, s2) \<Rightarrow> (Inl e, self1, s2)
      | (Inr _, s2) \<Rightarrow>
     (let self2 = self1\<lparr>browser := Some Handle\<rparr> in
      case call_unit R NewContext s2 of
        (Inl e, s3) \<Rightarrow> (Inl e, self2, s3)
      | (Inr _, s3) \<Rightarrow>
     (let self3 = self2\<lparr>browser_context := Some Handle\<rparr> in
      case call_unit R NewPage s3 of
        (Inl e, s4) \<Rightarrow> (Inl e, self3, s4)
      | (Inr _, s4) \<Rightarrow>
     (let self4 = self3\<lparr>page := Some Handle\<rparr> in
      case call_unit R (SetDefaultTimeout (timeout self4)) s4 of
        (r, s5) \<Rightarrow> (r, self4, s5))))))"

text \<open>A release guarded by \<^verbatim>\<open>if self.<handle>:\<close>.\<close>

definition release :: "'w runtime \<Rightarrow> handle option \<Rightarrow> call \<Rightarrow> 'w st \<Rightarrow> unit res \<times> 'w st" where
  "release R h c s = (if h = None then (Inr (), s) else call_unit R c s)"

definition close :: "'w runtime \<Rightarrow> automation \<Rightarrow> 'w st \<Rightarrow> unit res \<times> 'w st" where
  "close R self s =
     catch_Exception
       (case release R (page self) PageClose (s\<lparr>close_calls := Suc (close_calls s)\<rparr>) of
          (Inl e, s1) \<Rightarrow> (Inl e, s1)
        | (Inr _, s1) \<Rightarrow>
       (case release R (browser_context self) ContextClose s1 of
          (Inl e, s2) \<Rightarrow> (Inl e, s2)
        | (Inr _, s2) \<Rightarrow>
       (case release R (browser self) BrowserClose s2 of
          (Inl e, s3) \<Rightarrow> (Inl e, s3)
        | (Inr _, s3) \<Rightarrow> release R (playwright self) PlaywrightStop s3)))
       (\<lambda>s'. (Inr (), s'))"

section \<open>\<^verbatim>\<open>main\<close>\<close>

text \<open>
  The parsed command line. \<^verbatim>\<open>--job\<close> has \<^verbatim>\<open>action='append'\<close>: \<open>arg_jobs\<close> is
  \<^verbatim>\<open>None\<close> or the list of the names given.
\<close>

record args =
  arg_jobs :: "string list option"
  arg_list_jobs :: bool
  arg_all :: bool
  arg_headless :: bool

text \<open>The loop of the branch \<^verbatim>\<open>elif args.jobs:\<close>; it has no delay between the jobs.\<close>

fun run_named ::
  "'w runtime \<Rightarrow> automation \<Rightarrow> string list \<Rightarrow> (string \<times> bool) list \<Rightarrow> 'w st \<Rightarrow>
     (string \<times> bool) list res \<times> 'w st" where
  "run_named R self [] results s = (Inr results, s)"
| "run_named R self (job_name # rest) results s =
     (case run_job R self job_name s of
        (Inl e, s1) \<Rightarrow> (Inl e, s1)
      | (Inr success, s1) \<Rightarrow> run_named R self rest (dict_set results job_name success) s1)"

text \<open>The command chosen by the options, lines 494 to 532; its output is printed only.\<close>

definition main_command :: "'w runtime \<Rightarrow> args \<Rightarrow> automation \<Rightarrow> 'w st \<Rightarrow> unit res \<times> 'w st" where
  "main_command R a self s =
     (if arg_list_jobs a then
        (case list_jobs R self s of (Inl e, s1) \<Rightarrow> (Inl e, s1) | (Inr _, s1) \<Rightarrow> (Inr (), s1))
      else if arg_all a then
        (case run_all_jobs R self s of (Inl e, s1) \<Rightarrow> (Inl e, s1) | (Inr _, s1) \<Rightarrow> (Inr (), s1))
      else
        (case arg_jobs a of
           Some (job_name # rest) \<Rightarrow>
             (case run_named R self (job_name # rest) [] s of
                (Inl e, s1) \<Rightarrow> (Inl e, s1)
              | (Inr _, s1) \<Rightarrow> (Inr (), s1))
         | _ \<Rightarrow> (Inr (), s)))"

text \<open>The suite of the \<^verbatim>\<open>try\<close> of \<^verbatim>\<open>main\<close>, lines 484 to 537.\<close>

definition main_try ::
  "'w runtime \<Rightarrow> args \<Rightarrow> automation \<Rightarrow> 'w st \<Rightarrow> unit res \<times> automation \<times> 'w st" where
  "main_try R a self s =
     (case start_browser R self s of
        (Inl e, self1, s1) \<Rightarrow> (Inl e, self1, s1)
      | (Inr _, self1, s1) \<Rightarrow>
     (case login R self1 s1 of
        (Inl e, s2) \<Rightarrow> (Inl e, self1, s2)
      | (Inr ok, s2) \<Rightarrow>
     (case (if ok then (Inr [], s2) else call_str R StdinInput s2) of
        (Inl e, s3) \<Rightarrow> (Inl e, self1, s3)
      | (Inr _, s3) \<Rightarrow>
     (case main_command R a self1 s3 of
        (Inl e, s4) \<Rightarrow> (Inl e, self1, s4)
      | (Inr _, s4) \<Rightarrow>
          if \<not> headless self1
          then (case page_unit R self1 (WaitForTimeout 5000) s4 of (r, s5) \<Rightarrow> (r, self1, s5))
          else (Inr (), self1, s4)))))"

text \<open>
  \<^verbatim>\<open>main\<close> from line 480: the \<^verbatim>\<open>--headless\<close> override, then
  \<^verbatim>\<open>try / except KeyboardInterrupt / except Exception / finally\<close>. An exception raised by
  a handler leaves through \<^verbatim>\<open>finally\<close>; one raised by \<^verbatim>\<open>finally\<close> replaces it.
\<close>

definition main :: "'w runtime \<Rightarrow> args \<Rightarrow> automation \<Rightarrow> 'w st \<Rightarrow> unit res \<times> 'w st" where
  "main R a automation s =
     (case main_try R a (if arg_headless a then automation\<lparr>headless := True\<rparr> else automation) s of
        (r, self1, s1) \<Rightarrow>
     (case (case r of
              Inr _ \<Rightarrow> (Inr (), s1)
            | Inl KeyboardInterrupt \<Rightarrow> (Inr (), s1)
            | Inl Exception \<Rightarrow> release R (page self1) (Screenshot ''error_screenshot.png'') s1
            | Inl BaseException \<Rightarrow> (Inl BaseException, s1)) of
        (r', s2) \<Rightarrow>
     (case close R self1 s2 of
        (Inl e, s3) \<Rightarrow> (Inl e, s3)
      | (Inr _, s3) \<Rightarrow> (r', s3))))"

section \<open>Properties of a runtime, and concrete runtimes\<close>

text \<open>
  A runtime that raises nothing outside \<^verbatim>\<open>Exception\<close>: no \<^verbatim>\<open>KeyboardInterrupt\<close>, no
  \<^verbatim>\<open>SystemExit\<close>.
\<close>

definition raises_only_Exception :: "'w runtime \<Rightarrow> bool" where
  "raises_only_Exception R \<longleftrightarrow>
     (\<forall>c w e. fst (unit_op R c w) = Inl e \<longrightarrow> e = Exception) \<and>
     (\<forall>c w e. fst (bool_op R c w) = Inl e \<longrightarrow> e = Exception) \<and>
     (\<forall>c w e. fst (nat_op R c w) = Inl e \<longrightarrow> e = Exception) \<and>
     (\<forall>c w e. fst (str_op R c w) = Inl e \<longrightarrow> e = Exception)"

text \<open>
  The runtimes below have no state of their own. \<open>quiet\<close> is a blank page: every action
  returns, nothing is visible, nothing matches.
\<close>

definition quiet :: "unit runtime" where
  "quiet = \<lparr>unit_op = (\<lambda>c w. (Inr (), w)), bool_op = (\<lambda>c w. (Inr False, w)),
            nat_op = (\<lambda>c w. (Inr 0, w)), str_op = (\<lambda>c w. (Inr [], w))\<rparr>"

definition s0 :: "unit st" where
  "s0 = \<lparr>world = (), trace = [], close_calls = 0\<rparr>"

text \<open>The object after \<^verbatim>\<open>__init__\<close>, and after a \<^verbatim>\<open>start_browser\<close> that returned.\<close>

definition idle :: automation where
  \<open>idle = \<lparr>url = ''https://platform.uipath.com'', username = ''user'', password = ''secret'',
           headless = True, timeout = 30000, slow_mo = 0, playwright = None, browser = None,
           browser_context = None, page = None\<rparr>\<close>

definition started :: automation where
  "started = idle\<lparr>playwright := Some Handle, browser := Some Handle,
                   browser_context := Some Handle, page := Some Handle\<rparr>"

text \<open>
  Every selector is visible, and filling the first username selector raises (the element
  is visible and not editable, say).
\<close>

definition flaky_fill :: "unit runtime" where
  \<open>flaky_fill = quiet\<lparr>
     bool_op := (\<lambda>c w. (Inr True, w)),
     unit_op := (\<lambda>c w. (if c = Fill ''input[name="email"]'' ''user''
                          then Inl Exception else Inr (), w))\<rparr>\<close>

text \<open>The state in which the username loop of \<^verbatim>\<open>login\<close> ends on \<open>flaky_fill\<close>.\<close>

definition flaky_fill_end :: "unit st" where
  \<open>flaky_fill_end =
     \<lparr>world = (),
      trace = [IsVisible (Sel ''input[name="email"]'') 2000,
               Fill ''input[name="email"]'' ''user'',
               IsVisible (Sel ''input[name="username"]'') 2000,
               Fill ''input[name="username"]'' ''user''],
      close_calls = 0\<rparr>\<close>

text \<open>A page that shows the text \<^verbatim>\<open>Jobs\<close> and nothing else.\<close>

definition jobs_page :: "unit runtime" where
  \<open>jobs_page = quiet\<lparr>bool_op := (\<lambda>c w. (Inr (c = IsVisible (Sel ''text=Jobs'') 2000), w))\<rparr>\<close>

text \<open>
  A page with contradictory signals: a \<^verbatim>\<open>nav\<close> element (a positive indicator) and the
  text \<^verbatim>\<open>Login\<close> (a negative one) are both visible.
\<close>

definition mixed_page :: "unit runtime" where
  \<open>mixed_page = quiet\<lparr>bool_op := (\<lambda>c w.
      (Inr (c = IsVisible (Sel ''nav'') 2000 \<or> c = IsVisible (Sel ''text=Login'') 1000), w))\<rparr>\<close>

text \<open>The state in which \<^verbatim>\<open>login\<close> ends on \<open>jobs_page\<close>.\<close>

definition jobs_page_login_end :: "unit st" where
  \<open>jobs_page_login_end =
     \<lparr>world = (),
      trace = [Goto ''https://platform.uipath.com'', WaitForLoadState None,
               IsVisible (Sel ''text=Jobs'') 2000],
      close_calls = 0\<rparr>\<close>


text \<open>
  Pages for \<^verbatim>\<open>run_job\<close>. On all of them the first navigation link is visible. On
  \<open>nav_only\<close> nothing else is: no row matches any job name. On \<open>row_only\<close> the row of
  the job \<^verbatim>\<open>Cleanup\<close> is visible and has no play button. On \<open>broken_row\<close> the probe of
  that row raises and the first composite selector is visible.
\<close>

definition nav_only :: "unit runtime" where
  \<open>nav_only = quiet\<lparr>bool_op := (\<lambda>c w. (Inr (c = IsVisible (Sel ''a:has-text("Jobs")'') 2000), w))\<rparr>\<close>

definition row_only :: "unit runtime" where
  \<open>row_only = quiet\<lparr>bool_op := (\<lambda>c w.
      (Inr (c = IsVisible (Sel ''a:has-text("Jobs")'') 2000 \<or>
            c = IsVisible (job_row ''Cleanup'') 5000), w))\<rparr>\<close>

definition broken_row :: "unit runtime" where
  \<open>broken_row = quiet\<lparr>bool_op := (\<lambda>c w.
      (if c = IsVisible (job_row ''Cleanup'') 5000 then Inl Exception
       else Inr (c = IsVisible (Sel ''a:has-text("Jobs")'') 2000 \<or>
                 c = IsVisible (Sel (hd (play_button_selectors ''Cleanup''))) 2000), w))\<rparr>\<close>

text \<open>
  On \<open>play_page\<close> the row of \<^verbatim>\<open>Cleanup\<close> and its play button are visible. On
  \<open>interrupted_row\<close> the operator presses Ctrl-C during the probe of the row.
\<close>

definition play_page :: "unit runtime" where
  \<open>play_page = quiet\<lparr>bool_op := (\<lambda>c w.
      (Inr (c = IsVisible (Sel ''a:has-text("Jobs")'') 2000 \<or>
            c = IsVisible (job_row ''Cleanup'') 5000 \<or>
            c = IsVisible (play_button ''Cleanup'') 2000), w))\<rparr>\<close>

definition interrupted_row :: "unit runtime" where
  \<open>interrupted_row = quiet\<lparr>bool_op := (\<lambda>c w.
      (if c = IsVisible (job_row ''Cleanup'') 5000 then Inl KeyboardInterrupt
       else Inr (c = IsVisible (Sel ''a:has-text("Jobs")'') 2000), w))\<rparr>\<close>



text \<open>The states a \<^verbatim>\<open>run_job\<close> goes through on these pages, from \<open>s0\<close>.\<close>

definition on_jobs_page :: "unit st" where
  \<open>on_jobs_page =
     \<lparr>world = (),
      trace = [IsVisible (Sel ''a:has-text("Jobs")'') 2000, Click ''a:has-text("Jobs")'',
               WaitForLoadState None],
      close_calls = 0\<rparr>\<close>


definition settled_page :: "unit st" where
  "settled_page = on_jobs_page\<lparr>trace := trace on_jobs_page @ [WaitForTimeout 2000]\<rparr>"

definition ghost_job_end :: "unit st" where
  "ghost_job_end =
     settled_page\<lparr>trace := trace settled_page @ [IsVisible (job_row ''Ghost Job'') 5000]\<rparr>"

definition row_probed :: "unit st" where
  "row_probed =
     settled_page\<lparr>trace := trace settled_page @ [IsVisible (job_row ''Cleanup'') 5000]\<rparr>"

definition button_probed :: "unit st" where
  "button_probed =
     row_probed\<lparr>trace := trace row_probed @ [IsVisible (play_button ''Cleanup'') 2000]\<rparr>"

definition triggered :: "unit st" where
  "triggered =
     button_probed\<lparr>trace := trace button_probed @
       [LocatorClick (play_button ''Cleanup''), WaitForTimeout 2000]\<rparr>"

definition fallback_end :: "unit st" where
  "fallback_end =
     row_probed\<lparr>trace := trace row_probed @
       [IsVisible (Sel (hd (play_button_selectors ''Cleanup''))) 2000,
        Click (hd (play_button_selectors ''Cleanup'')), WaitForTimeout 2000]\<rparr>"

definition failing :: "unit runtime" where
  "failing = quiet\<lparr>unit_op := (\<lambda>c w. (Inl Exception, w))\<rparr>"

definition interrupted_close :: "unit runtime" where
  "interrupted_close = quiet\<lparr>unit_op := (\<lambda>c w.
      (if c = PageClose then Inl KeyboardInterrupt else Inr (), w))\<rparr>"

text \<open>
  The releases \<^verbatim>\<open>close\<close> has to perform, in its order: one for each handle that is set.
\<close>

definition releases :: "automation \<Rightarrow> call list" where
  "releases self =
     (if page self = None then [] else [PageClose]) @
     (if browser_context self = None then [] else [ContextClose]) @
     (if browser self = None then [] else [BrowserClose]) @
     (if playwright self = None then [] else [PlaywrightStop])"

text \<open>To perform a list of releases in order, up to the first one that raises.\<close>

fun run_releases :: "'w runtime \<Rightarrow> call list \<Rightarrow> 'w st \<Rightarrow> unit res \<times> 'w st" where
  "run_releases R [] s = (Inr (), s)"
| "run_releases R (c # cs) s =
     (case call_unit R c s of
        (Inl e, s1) \<Rightarrow> (Inl e, s1)
      | (Inr _, s1) \<Rightarrow> run_releases R cs s1)"

text \<open>The command line \<^verbatim>\<open>--list-jobs\<close>.\<close>

definition list_only :: args where
  "list_only = \<lparr>arg_jobs = None, arg_list_jobs = True, arg_all = False, arg_headless = False\<rparr>"

text \<open>
  Pages for \<^verbatim>\<open>list_jobs\<close>. On \<open>many_rows\<close> every row selector matches 60 rows and every
  row has the name \<^verbatim>\<open>Job\<close>. On \<open>unnamed_rows\<close> every row selector matches one row; the
  row of the first selector has no name field, the others are named \<^verbatim>\<open>Cleanup\<close>.
\<close>

definition many_rows :: "unit runtime" where
  \<open>many_rows = quiet\<lparr>
     bool_op := (\<lambda>c w. (Inr (c = IsVisible (Sel ''a:has-text("Jobs")'') 2000), w)),
     nat_op := (\<lambda>c w. (Inr (case c of LocatorAll _ \<Rightarrow> 60 | _ \<Rightarrow> 1), w)),
     str_op := (\<lambda>c w. (Inr ''Job'', w))\<rparr>\<close>

definition fifty_jobs :: "job list" where
  \<open>fifty_jobs =
     map (\<lambda>i. \<lparr>name = ''Job'', index = i, element = Nth (Sel ''tr[data-testid*="job"]'') i\<rparr>)
       [0..<50]\<close>







section \<open>The selector loop: which strategy wins\<close>

lemma run_actions_trace:
  "run_actions R self cs s = (Inr u, s') \<Longrightarrow> trace s' = trace s @ cs"
  by (induction cs arbitrary: s)
     (auto simp: page_unit_def call_unit_def split: prod.splits sum.splits if_splits)

lemma attempt_True:
  "attempt R self t acts sel s = (True, s') \<Longrightarrow>
     fst (page_bool R self (IsVisible (Sel sel) t) s) = Inr True \<and>
     trace s' = trace s @ IsVisible (Sel sel) t # acts sel"
  by (auto simp: attempt_def page_bool_def call_bool_def
           split: prod.splits sum.splits bool.splits if_splits dest!: run_actions_trace)

lemma try_selectors_append:
  "try_selectors R self t acts (xs @ ys) s =
     (case try_selectors R self t acts xs s of
        (True, s1) \<Rightarrow> (True, s1)
      | (False, s1) \<Rightarrow> try_selectors R self t acts ys s1)"
  by (induction xs arbitrary: s) (auto split: prod.splits bool.splits)

lemma try_selectors_split:
  "try_selectors R self t acts sels s = (True, s') \<Longrightarrow>
     \<exists>pre sel post s1. sels = pre @ sel # post \<and>
        try_selectors R self t acts pre s = (False, s1) \<and>
        attempt R self t acts sel s1 = (True, s')"
proof (induction sels arbitrary: s)
  case Nil
  then show ?case by simp
next
  case (Cons x xs)
  obtain b s1 where a: "attempt R self t acts x s = (b, s1)" by force
  show ?case
  proof (cases b)
    case True
    with a Cons.prems have "s1 = s'" by simp
    with a True have "x # xs = [] @ x # xs \<and> try_selectors R self t acts [] s = (False, s) \<and>
        attempt R self t acts x s = (True, s')" by simp
    then show ?thesis by blast
  next
    case False
    with a Cons.prems have "try_selectors R self t acts xs s1 = (True, s')" by simp
    from Cons.IH[OF this] obtain pre sel post s2 where
      p: "xs = pre @ sel # post" "try_selectors R self t acts pre s1 = (False, s2)"
         "attempt R self t acts sel s2 = (True, s')" by blast
    from a False p have "x # xs = (x # pre) @ sel # post \<and>
        try_selectors R self t acts (x # pre) s = (False, s2) \<and>
        attempt R self t acts sel s2 = (True, s')" by simp
    then show ?thesis by blast
  qed
qed

text \<open>
  C1, as the code has it. The specification has the loop stop at the first strategy whose
  visibility probe succeeds. In the source the probe and the action on the element
  (\<^verbatim>\<open>fill\<close>, \<^verbatim>\<open>click\<close>, \<^verbatim>\<open>click\<close> and the wait after it) share one \<^verbatim>\<open>try\<close> whose
  \<^verbatim>\<open>except\<close> continues the loop. So, for every selector list (the username, password,
  login button and navigation link lists among them): the loop succeeds exactly when the
  list splits into \<open>pre\<close>, \<open>sel\<close> and \<open>post\<close> such that every strategy of \<open>pre\<close> was
  tried and failed, the probe of \<open>sel\<close> answered visible and its action completed. The
  run ends with that probe and that action: no strategy of \<open>post\<close> is probed.
\<close>

theorem try_selectors_first_completed:
  "try_selectors R self t acts sels s = (True, s') \<longleftrightarrow>
     (\<exists>pre sel post s1. sels = pre @ sel # post \<and>
        try_selectors R self t acts pre s = (False, s1) \<and>
        attempt R self t acts sel s1 = (True, s') \<and>
        fst (page_bool R self (IsVisible (Sel sel) t) s1) = Inr True \<and>
        trace s' = trace s1 @ IsVisible (Sel sel) t # acts sel)"
proof
  assume "try_selectors R self t acts sels s = (True, s')"
  from try_selectors_split[OF this] show
    "\<exists>pre sel post s1. sels = pre @ sel # post \<and>
        try_selectors R self t acts pre s = (False, s1) \<and>
        attempt R self t acts sel s1 = (True, s') \<and>
        fst (page_bool R self (IsVisible (Sel sel) t) s1) = Inr True \<and>
        trace s' = trace s1 @ IsVisible (Sel sel) t # acts sel"
    using attempt_True by blast
next
  assume "\<exists>pre sel post s1. sels = pre @ sel # post \<and>
        try_selectors R self t acts pre s = (False, s1) \<and>
        attempt R self t acts sel s1 = (True, s') \<and>
        fst (page_bool R self (IsVisible (Sel sel) t) s1) = Inr True \<and>
        trace s' = trace s1 @ IsVisible (Sel sel) t # acts sel"
  then show "try_selectors R self t acts sels s = (True, s')"
    by (auto simp: try_selectors_append)
qed

text \<open>
  The username loop of \<^verbatim>\<open>login\<close> on \<open>flaky_fill\<close>: the probe of the first selector
  succeeds, \<^verbatim>\<open>fill\<close> raises, and the loop probes and fills the second selector.
\<close>

lemma username_loop_flaky_fill:
  "try_selectors flaky_fill started 2000 (\<lambda>selector. [Fill selector (username started)])
     username_selectors s0 = (True, flaky_fill_end)"
  by (simp add: flaky_fill_def flaky_fill_end_def quiet_def started_def idle_def s0_def
       username_selectors_def attempt_def page_bool_def page_unit_def call_bool_def
       call_unit_def)

theorem try_selectors_first_completed_witness:
  "\<exists>pre sel post s1. username_selectors = pre @ sel # post \<and>
     try_selectors flaky_fill started 2000 (\<lambda>selector. [Fill selector (username started)])
       pre s0 = (False, s1) \<and>
     attempt flaky_fill started 2000 (\<lambda>selector. [Fill selector (username started)])
       sel s1 = (True, flaky_fill_end) \<and>
     fst (page_bool flaky_fill started (IsVisible (Sel sel) 2000) s1) = Inr True \<and>
     trace flaky_fill_end = trace s1 @ IsVisible (Sel sel) 2000 # [Fill sel (username started)]"
  by (rule iffD1 [OF try_selectors_first_completed username_loop_flaky_fill])

text \<open>
  C1 as stated fails: on \<open>flaky_fill\<close> the probe of the first username strategy succeeds
  (first conjunct), and yet the loop goes on to probe the second strategy and fills that
  one.
\<close>

theorem try_selectors_probes_after_success:
  \<open>fst (page_bool flaky_fill started (IsVisible (Sel (hd username_selectors)) 2000) s0) = Inr True \<and>
   trace (snd (try_selectors flaky_fill started 2000
                 (\<lambda>selector. [Fill selector (username started)]) username_selectors s0)) =
     [IsVisible (Sel ''input[name="email"]'') 2000,
      Fill ''input[name="email"]'' ''user'',
      IsVisible (Sel ''input[name="username"]'') 2000,
      Fill ''input[name="username"]'' ''user'']\<close>
  by (simp add: flaky_fill_def quiet_def started_def idle_def s0_def username_selectors_def
       attempt_def page_bool_def page_unit_def call_bool_def call_unit_def)

section \<open>Session state and \<^verbatim>\<open>login\<close>\<close>

lemma try_selectors_none_visible:
  "(\<And>ind s. ind \<in> set sels \<Longrightarrow> fst (page_bool R self (IsVisible (Sel ind) t) s) \<noteq> Inr True) \<Longrightarrow>
     fst (try_selectors R self t acts sels s) = False"
proof (induction sels arbitrary: s)
  case Nil
  then show ?case by simp
next
  case (Cons x xs)
  have "fst (page_bool R self (IsVisible (Sel x) t) s) \<noteq> Inr True"
    using Cons.prems by simp
  then have "fst (attempt R self t acts x s) = False"
    by (auto simp: attempt_def split: prod.splits sum.splits bool.splits)
  moreover have "fst (try_selectors R self t acts xs s1) = False" for s1
    using Cons.IH Cons.prems by simp
  ultimately show ?case
    by (auto split: prod.splits bool.splits)
qed

text \<open>
  C2, as the code has it. \<^verbatim>\<open>_is_logged_in\<close> returns a Python boolean; it has no third
  value. When no positive and no negative indicator is visible (whatever the timeout and
  whenever it is probed), it returns \<^verbatim>\<open>True\<close>: the undetermined case is hardwired to the
  answer "logged in" (line 229).
\<close>

theorem is_logged_in_defaults_to_True:
  assumes "\<forall>ind \<in> set (logged_in_indicators @ login_indicators). \<forall>t s.
             fst (page_bool R self (IsVisible (Sel ind) t) s) \<noteq> Inr True"
  shows "fst (is_logged_in R self s) = True"
proof -
  obtain b1 s1 where p1: "try_selectors R self 2000 (\<lambda>_. []) logged_in_indicators s = (b1, s1)"
    by force
  obtain b2 s2 where p2: "try_selectors R self 1000 (\<lambda>_. []) login_indicators s1 = (b2, s2)"
    by force
  have "fst (try_selectors R self 1000 (\<lambda>_. []) login_indicators s1) = False"
    using assms by (intro try_selectors_none_visible) simp
  with p2 have "b2 = False" by simp
  with p1 p2 show ?thesis by (cases b1) (simp_all add: is_logged_in_def)
qed

text \<open>
  On the blank page \<open>quiet\<close> every probe answers \<^verbatim>\<open>False\<close>: no indicator is visible,
  and the answer is \<^verbatim>\<open>True\<close>.
\<close>

theorem is_logged_in_defaults_to_True_witness:
  "bool_op quiet = (\<lambda>c w. (Inr False, w)) \<and> fst (is_logged_in quiet started s0) = True"
proof -
  have h: "\<forall>ind \<in> set (logged_in_indicators @ login_indicators). \<forall>t s.
      fst (page_bool quiet started (IsVisible (Sel ind) t) s) \<noteq> Inr True"
    by (simp add: page_bool_def call_bool_def quiet_def)
  have "bool_op quiet = (\<lambda>c w. (Inr False, w))" by (simp add: quiet_def)
  with is_logged_in_defaults_to_True [OF h, of s0] show ?thesis by blast
qed

text \<open>
  C2 as stated fails: on the blank page \<open>quiet\<close>, where no indicator of either kind is
  visible, the classifier answers \<^verbatim>\<open>True\<close>, the very value it gives on \<open>jobs_page\<close>,
  where a positive indicator is visible. The undetermined case is coerced to a boolean.
\<close>

theorem is_logged_in_no_unknown:
  "fst (is_logged_in quiet started s0) = True \<and> fst (is_logged_in jobs_page started s0) = True"
  by (simp add: is_logged_in_def quiet_def jobs_page_def started_def idle_def s0_def
       logged_in_indicators_def login_indicators_def
       attempt_def page_bool_def page_unit_def call_bool_def call_unit_def)

text \<open>
  C5: the classifier returns \<^verbatim>\<open>True\<close> (authenticated) whenever a positive indicator is
  visible, whatever the negative indicators are. "Visible" is read as the code reads it:
  the probe of the indicator \<open>ind\<close>, issued after the probes of the indicators \<open>pre\<close>
  before it, answers \<^verbatim>\<open>True\<close>. The run then ends inside the loop over the positive
  indicators: its final state is the one that loop alone reaches, so no negative indicator
  is probed.
\<close>

theorem is_logged_in_positive_first:
  assumes "logged_in_indicators = pre @ ind # post"
    and "fst (page_bool R self (IsVisible (Sel ind) 2000)
               (snd (try_selectors R self 2000 (\<lambda>_. []) pre s))) = Inr True"
  shows "is_logged_in R self s =
           (True, snd (try_selectors R self 2000 (\<lambda>_. []) logged_in_indicators s))"
proof -
  obtain b s1 where p: "try_selectors R self 2000 (\<lambda>_. []) pre s = (b, s1)" by force
  have "fst (attempt R self 2000 (\<lambda>_. []) ind s1) = True"
    using assms(2) p by (auto simp: attempt_def split: prod.splits sum.splits bool.splits)
  then have "fst (try_selectors R self 2000 (\<lambda>_. []) (ind # post) s1) = True"
    by (auto split: prod.splits bool.splits)
  with p have "fst (try_selectors R self 2000 (\<lambda>_. []) logged_in_indicators s) = True"
    unfolding assms(1) try_selectors_append by (cases b) (auto split: prod.splits)
  then show ?thesis
    by (auto simp: is_logged_in_def split: prod.splits bool.splits)
qed

theorem is_logged_in_positive_first_witness:
  \<open>fst (page_bool mixed_page started (IsVisible (Sel ''text=Login'') 1000) s0) = Inr True \<and>
   fst (page_bool mixed_page started (IsVisible (Sel ''nav'') 2000)
         (snd (try_selectors mixed_page started 2000 (\<lambda>_. [])
            [''text=Jobs'', ''text=Processes'', ''text=Robots'', ''text=Orchestrator'',
             ''[data-testid*="menu"]''] s0))) = Inr True \<and>
   is_logged_in mixed_page started s0 =
     (True, snd (try_selectors mixed_page started 2000 (\<lambda>_. []) logged_in_indicators s0))\<close>
proof -
  have a: \<open>logged_in_indicators =
      [''text=Jobs'', ''text=Processes'', ''text=Robots'', ''text=Orchestrator'',
       ''[data-testid*="menu"]''] @ ''nav'' # [''[role="navigation"]'']\<close>
    by (simp add: logged_in_indicators_def)
  have b: \<open>fst (page_bool mixed_page started (IsVisible (Sel ''nav'') 2000)
         (snd (try_selectors mixed_page started 2000 (\<lambda>_. [])
            [''text=Jobs'', ''text=Processes'', ''text=Robots'', ''text=Orchestrator'',
             ''[data-testid*="menu"]''] s0))) = Inr True\<close>
    by (simp add: page_bool_def call_bool_def mixed_page_def quiet_def started_def idle_def)
  have c: \<open>fst (page_bool mixed_page started (IsVisible (Sel ''text=Login'') 1000) s0) = Inr True\<close>
    by (simp add: page_bool_def call_bool_def mixed_page_def quiet_def started_def idle_def)
  from b c is_logged_in_positive_first [OF a b] show ?thesis by blast
qed

lemma try_selectors_probes_only:
  "try_selectors R self t (\<lambda>_. []) sels s = (b, s') \<Longrightarrow>
     \<exists>probes. trace s' = trace s @ probes \<and> (\<forall>c \<in> set probes. \<exists>ind. c = IsVisible (Sel ind) t)"
proof (induction sels arbitrary: s)
  case Nil
  then show ?case by simp
next
  case (Cons x xs)
  obtain r s1 where a: "attempt R self t (\<lambda>_. []) x s = (r, s1)" by force
  then have t1: "trace s1 = trace s \<or> trace s1 = trace s @ [IsVisible (Sel x) t]"
    by (auto simp: attempt_def page_bool_def call_bool_def
             split: prod.splits sum.splits bool.splits if_splits)
  show ?case
  proof (cases r)
    case True
    with a Cons.prems have "s' = s1" by simp
    with t1 show ?thesis by auto
  next
    case False
    with a Cons.prems have "try_selectors R self t (\<lambda>_. []) xs s1 = (b, s')" by simp
    from Cons.IH[OF this] obtain probes where
      p: "trace s' = trace s1 @ probes" "\<forall>c \<in> set probes. \<exists>ind. c = IsVisible (Sel ind) t"
      by blast
    from t1 show ?thesis
    proof
      assume "trace s1 = trace s"
      with p show ?thesis by auto
    next
      assume "trace s1 = trace s @ [IsVisible (Sel x) t]"
      with p have "trace s' = trace s @ (IsVisible (Sel x) t # probes) \<and>
                   (\<forall>c \<in> set (IsVisible (Sel x) t # probes). \<exists>ind. c = IsVisible (Sel ind) t)"
        by simp
      then show ?thesis by blast
    qed
  qed
qed

lemma is_logged_in_probes_only:
  assumes "is_logged_in R self s = (b, s')"
  shows "\<exists>probes. trace s' = trace s @ probes \<and>
            (\<forall>c \<in> set probes. \<exists>ind t. c = IsVisible (Sel ind) t)"
proof -
  obtain b1 s1 where p1: "try_selectors R self 2000 (\<lambda>_. []) logged_in_indicators s = (b1, s1)"
    by force
  obtain b2 s2 where p2: "try_selectors R self 1000 (\<lambda>_. []) login_indicators s1 = (b2, s2)"
    by force
  from try_selectors_probes_only[OF p1] obtain ps1 where
    q1: "trace s1 = trace s @ ps1" "\<forall>c \<in> set ps1. \<exists>ind. c = IsVisible (Sel ind) 2000" by blast
  from try_selectors_probes_only[OF p2] obtain ps2 where
    q2: "trace s2 = trace s1 @ ps2" "\<forall>c \<in> set ps2. \<exists>ind. c = IsVisible (Sel ind) 1000" by blast
  from assms p1 p2 have "s' = s1 \<or> s' = s2"
    by (auto simp: is_logged_in_def split: bool.splits)
  then show ?thesis
  proof
    assume "s' = s1"
    with q1 show ?thesis by blast
  next
    assume "s' = s2"
    with q1 q2 have "trace s' = trace s @ (ps1 @ ps2) \<and>
        (\<forall>c \<in> set (ps1 @ ps2). \<exists>ind t. c = IsVisible (Sel ind) t)" by auto
    then show ?thesis by blast
  qed
qed

text \<open>
  C9: when the navigation to the URL and the wait for the load state return and the
  session is classified as logged in, \<^verbatim>\<open>login\<close> returns \<^verbatim>\<open>True\<close> at once. The calls it
  issued are the navigation, the wait and visibility probes: no \<^verbatim>\<open>fill\<close>, no
  \<^verbatim>\<open>click\<close>, no key press.
\<close>

theorem login_already_authenticated:
  assumes "page_unit R self (Goto (url self)) s = (Inr (), s1)"
    and "page_unit R self (WaitForLoadState None) s1 = (Inr (), s2)"
    and "is_logged_in R self s2 = (True, s3)"
  shows "login R self s = (Inr True, s3) \<and>
         (\<exists>probes. trace s3 = trace s @ Goto (url self) # WaitForLoadState None # probes \<and>
            (\<forall>c \<in> set probes. \<exists>ind t. c = IsVisible (Sel ind) t))"
proof -
  have "login R self s = (Inr True, s3)"
    using assms by (simp add: login_def catch_Exception_def)
  moreover have "trace s1 = trace s @ [Goto (url self)]"
    using assms(1) by (auto simp: page_unit_def call_unit_def split: if_splits prod.splits)
  moreover have "trace s2 = trace s1 @ [WaitForLoadState None]"
    using assms(2) by (auto simp: page_unit_def call_unit_def split: if_splits prod.splits)
  moreover from is_logged_in_probes_only[OF assms(3)] obtain probes where
    "trace s3 = trace s2 @ probes" "\<forall>c \<in> set probes. \<exists>ind t. c = IsVisible (Sel ind) t" by blast
  ultimately show ?thesis by auto
qed

theorem login_already_authenticated_witness:
  "login jobs_page started s0 = (Inr True, jobs_page_login_end) \<and>
   (\<exists>probes. trace jobs_page_login_end =
        trace s0 @ Goto (url started) # WaitForLoadState None # probes \<and>
      (\<forall>c \<in> set probes. \<exists>ind t. c = IsVisible (Sel ind) t))"
proof -
  have a: "page_unit jobs_page started (Goto (url started)) s0 =
      (Inr (), s0\<lparr>trace := [Goto (url started)]\<rparr>)"
    by (simp add: page_unit_def call_unit_def jobs_page_def quiet_def started_def idle_def s0_def)
  have b: "page_unit jobs_page started (WaitForLoadState None) (s0\<lparr>trace := [Goto (url started)]\<rparr>) =
      (Inr (), s0\<lparr>trace := [Goto (url started), WaitForLoadState None]\<rparr>)"
    by (simp add: page_unit_def call_unit_def jobs_page_def quiet_def started_def idle_def s0_def)
  have c: "is_logged_in jobs_page started (s0\<lparr>trace := [Goto (url started), WaitForLoadState None]\<rparr>) =
      (True, jobs_page_login_end)"
    by (simp add: is_logged_in_def jobs_page_def jobs_page_login_end_def quiet_def started_def
         idle_def s0_def logged_in_indicators_def attempt_def page_bool_def call_bool_def)
  from login_already_authenticated [OF a b c] show ?thesis .
qed

section \<open>\<^verbatim>\<open>run_job\<close>: the two passes and the exceptions\<close>

lemmas prims = page_bool_def page_unit_def page_str_def page_nat_def
  call_bool_def call_unit_def call_str_def call_nat_def attempt_def catch_Exception_def

text \<open>
  C3, as the code has it. The loop over the composite selectors is the handler of
  \<^verbatim>\<open>except Exception\<close>; both \<^verbatim>\<open>else\<close> branches of the row pass return \<^verbatim>\<open>False\<close>. So,
  once navigation and the wait have returned, the second pass runs exactly when the row
  pass raises an \<^verbatim>\<open>Exception\<close>, and \<^verbatim>\<open>run_job\<close> then returns its result. In every other
  case (the row pass returns \<^verbatim>\<open>True\<close> or \<^verbatim>\<open>False\<close>, or raises outside \<^verbatim>\<open>Exception\<close>)
  \<^verbatim>\<open>run_job\<close> ends as the row pass ends, in the very state the row pass reached: no
  composite selector is probed. In particular, when the row is not visible, \<^verbatim>\<open>run_job\<close>
  returns \<^verbatim>\<open>False\<close> in the state reached by the probe of the row, and when the row is
  visible and its play button is not, in the state reached by the probe of the button.
\<close>

theorem run_job_fallback_only_after_Exception:
  assumes "navigate_to_jobs R self s = (Inr (), s1)"
    and "page_unit R self (WaitForTimeout 2000) s1 = (Inr (), s2)"
  shows "(row_pass R self job_name s2 = (r, s3) \<and> r \<noteq> Inl Exception \<longrightarrow>
            run_job R self job_name s = (r, s3)) \<and>
         (row_pass R self job_name s2 = (Inl Exception, s3) \<longrightarrow>
            run_job R self job_name s =
              (Inr (fst (fallback_pass R self job_name s3)), snd (fallback_pass R self job_name s3))) \<and>
         (page_bool R self (IsVisible (job_row job_name) 5000) s2 = (Inr False, s3) \<longrightarrow>
            run_job R self job_name s = (Inr False, s3)) \<and>
         (page_bool R self (IsVisible (job_row job_name) 5000) s2 = (Inr True, s3) \<and>
          call_bool R (IsVisible (play_button job_name) 2000) s3 = (Inr False, s4) \<longrightarrow>
            run_job R self job_name s = (Inr False, s4))"
proof -
  have rj: "run_job R self job_name s =
      catch_Exception (row_pass R self job_name s2)
        (\<lambda>s3. case fallback_pass R self job_name s3 of (ok, s4) \<Rightarrow> (Inr ok, s4))"
    using assms by (simp add: run_job_def)
  have a: "run_job R self job_name s = (r', s')"
    if "row_pass R self job_name s2 = (r', s')" "r' \<noteq> Inl Exception" for r' s'
    unfolding rj using that
    by (cases r') (auto simp: catch_Exception_def split: exn.splits)
  have b: "run_job R self job_name s =
      (Inr (fst (fallback_pass R self job_name s3)), snd (fallback_pass R self job_name s3))"
    if "row_pass R self job_name s2 = (Inl Exception, s3)"
    unfolding rj using that
    by (simp add: catch_Exception_def split: prod.splits)
  have c: "run_job R self job_name s = (Inr False, s3)"
    if "page_bool R self (IsVisible (job_row job_name) 5000) s2 = (Inr False, s3)"
    by (rule a) (simp_all add: row_pass_def that)
  have d: "run_job R self job_name s = (Inr False, s4)"
    if "page_bool R self (IsVisible (job_row job_name) 5000) s2 = (Inr True, s3)"
      "call_bool R (IsVisible (play_button job_name) 2000) s3 = (Inr False, s4)"
    by (rule a) (simp_all add: row_pass_def that)
  from a b c d show ?thesis by blast
qed

lemma navigate_first_link:
  assumes \<open>bool_op R (IsVisible (Sel ''a:has-text("Jobs")'') 2000) () = (Inr True, ())\<close>
    and "unit_op R = (\<lambda>c w. (Inr (), w))"
  shows "navigate_to_jobs R started s0 = (Inr (), on_jobs_page)"
  using assms
  by (simp add: navigate_to_jobs_def started_def idle_def s0_def
        on_jobs_page_def job_links_def prims)

lemma settle_wait:
  assumes "unit_op R = (\<lambda>c w. (Inr (), w))"
  shows "page_unit R started (WaitForTimeout 2000) on_jobs_page = (Inr (), settled_page)"
  using assms
  by (simp add: started_def idle_def settled_page_def on_jobs_page_def prims)

lemma ghost_row_probe:
  "page_bool nav_only started (IsVisible (job_row ''Ghost Job'') 5000) settled_page =
     (Inr False, ghost_job_end)"
  by (simp add: nav_only_def quiet_def started_def idle_def settled_page_def ghost_job_end_def
        on_jobs_page_def prims)

lemma cleanup_row_probe:
  "page_bool row_only started (IsVisible (job_row ''Cleanup'') 5000) settled_page =
     (Inr True, row_probed)"
  by (simp add: row_only_def quiet_def started_def idle_def settled_page_def row_probed_def
        on_jobs_page_def prims)

lemma cleanup_button_probe:
  "call_bool row_only (IsVisible (play_button ''Cleanup'') 2000) row_probed =
     (Inr False, button_probed)"
  by (simp add: row_only_def quiet_def row_probed_def button_probed_def settled_page_def
        on_jobs_page_def play_button_def prims)

lemma broken_row_pass:
  "row_pass broken_row started ''Cleanup'' settled_page = (Inl Exception, row_probed)"
  by (simp add: row_pass_def broken_row_def quiet_def started_def idle_def settled_page_def
        row_probed_def on_jobs_page_def prims)

lemma broken_row_fallback:
  "fallback_pass broken_row started ''Cleanup'' row_probed = (True, fallback_end)"
  by (simp add: fallback_pass_def broken_row_def quiet_def started_def idle_def settled_page_def
        row_probed_def fallback_end_def on_jobs_page_def play_button_selectors_def job_row_def
        prims)

lemma play_page_row_pass:
  "row_pass play_page started ''Cleanup'' settled_page = (Inr True, triggered)"
  by (simp add: row_pass_def play_page_def quiet_def started_def idle_def settled_page_def
        row_probed_def button_probed_def triggered_def on_jobs_page_def prims)

lemma interrupted_row_pass:
  "row_pass interrupted_row started ''Cleanup'' settled_page = (Inl KeyboardInterrupt, row_probed)"
  by (simp add: row_pass_def interrupted_row_def quiet_def started_def idle_def settled_page_def
        row_probed_def on_jobs_page_def prims)

text \<open>
  Five runs from \<open>s0\<close>: the row is missing; the button is missing; the row pass raises an
  \<^verbatim>\<open>Exception\<close> and the second pass clicks; the row pass clicks and nothing follows; the
  row pass is interrupted and nothing follows.
\<close>

theorem run_job_fallback_only_after_Exception_witness:
  "run_job nav_only started ''Ghost Job'' s0 = (Inr False, ghost_job_end) \<and>
   run_job row_only started ''Cleanup'' s0 = (Inr False, button_probed) \<and>
   run_job broken_row started ''Cleanup'' s0 = (Inr True, fallback_end) \<and>
   run_job play_page started ''Cleanup'' s0 = (Inr True, triggered) \<and>
   run_job interrupted_row started ''Cleanup'' s0 = (Inl KeyboardInterrupt, row_probed)"
proof -
  have n1: "navigate_to_jobs nav_only started s0 = (Inr (), on_jobs_page)"
    by (rule navigate_first_link) (simp_all add: nav_only_def quiet_def)
  have w1: "page_unit nav_only started (WaitForTimeout 2000) on_jobs_page = (Inr (), settled_page)"
    by (rule settle_wait) (simp add: nav_only_def quiet_def)
  have n2: "navigate_to_jobs row_only started s0 = (Inr (), on_jobs_page)"
    by (rule navigate_first_link) (simp_all add: row_only_def quiet_def)
  have w2: "page_unit row_only started (WaitForTimeout 2000) on_jobs_page = (Inr (), settled_page)"
    by (rule settle_wait) (simp add: row_only_def quiet_def)
  have n3: "navigate_to_jobs broken_row started s0 = (Inr (), on_jobs_page)"
    by (rule navigate_first_link) (simp_all add: broken_row_def quiet_def job_row_def)
  have w3: "page_unit broken_row started (WaitForTimeout 2000) on_jobs_page = (Inr (), settled_page)"
    by (rule settle_wait) (simp add: broken_row_def quiet_def)
  have n4: "navigate_to_jobs play_page started s0 = (Inr (), on_jobs_page)"
    by (rule navigate_first_link) (simp_all add: play_page_def quiet_def)
  have w4: "page_unit play_page started (WaitForTimeout 2000) on_jobs_page = (Inr (), settled_page)"
    by (rule settle_wait) (simp add: play_page_def quiet_def)
  have n5: "navigate_to_jobs interrupted_row started s0 = (Inr (), on_jobs_page)"
    by (rule navigate_first_link) (simp_all add: interrupted_row_def quiet_def job_row_def)
  have w5: "page_unit interrupted_row started (WaitForTimeout 2000) on_jobs_page = (Inr (), settled_page)"
    by (rule settle_wait) (simp add: interrupted_row_def quiet_def)
  from run_job_fallback_only_after_Exception
         [OF n1 w1, where job_name = "''Ghost Job''" and ?s3.0 = ghost_job_end]
    ghost_row_probe
  have a: "run_job nav_only started ''Ghost Job'' s0 = (Inr False, ghost_job_end)" by blast
  from run_job_fallback_only_after_Exception
         [OF n2 w2, where job_name = "''Cleanup''" and ?s3.0 = row_probed and ?s4.0 = button_probed]
    cleanup_row_probe cleanup_button_probe
  have b: "run_job row_only started ''Cleanup'' s0 = (Inr False, button_probed)" by blast
  from run_job_fallback_only_after_Exception
         [OF n3 w3, where job_name = "''Cleanup''" and ?s3.0 = row_probed]
    broken_row_pass broken_row_fallback
  have c: "run_job broken_row started ''Cleanup'' s0 = (Inr True, fallback_end)" by simp
  from run_job_fallback_only_after_Exception
         [OF n4 w4, where job_name = "''Cleanup''" and r = "Inr True" and ?s3.0 = triggered]
    play_page_row_pass
  have d: "run_job play_page started ''Cleanup'' s0 = (Inr True, triggered)" by simp
  from run_job_fallback_only_after_Exception
         [OF n5 w5, where job_name = "''Cleanup''" and r = "Inl KeyboardInterrupt"
            and ?s3.0 = row_probed]
    interrupted_row_pass
  have e: "run_job interrupted_row started ''Cleanup'' s0 = (Inl KeyboardInterrupt, row_probed)"
    by simp
  from a b c d e show ?thesis by blast
qed

text \<open>
  C3 as stated fails: on \<open>nav_only\<close> the row of \<^verbatim>\<open>Ghost Job\<close> is not found, without any
  exception, and \<^verbatim>\<open>run_job\<close> returns \<^verbatim>\<open>False\<close> right after the probe of the row. No
  composite selector was probed.
\<close>

theorem run_job_no_fallback_after_miss:
  \<open>run_job nav_only started ''Ghost Job'' s0 =
     (Inr False,
      \<lparr>world = (),
       trace = [IsVisible (Sel ''a:has-text("Jobs")'') 2000, Click ''a:has-text("Jobs")'',
                WaitForLoadState None, WaitForTimeout 2000,
                IsVisible (job_row ''Ghost Job'') 5000],
       close_calls = 0\<rparr>)\<close>
  by (simp add: run_job_def row_pass_def navigate_to_jobs_def nav_only_def quiet_def started_def
        idle_def s0_def job_links_def prims)

lemma only_Exception_unit:
  "raises_only_Exception R \<Longrightarrow> call_unit R c s = (Inl e, s') \<Longrightarrow> e = Exception"
  by (auto simp: raises_only_Exception_def call_unit_def split: prod.splits)
     (metis fst_conv)


lemma only_Exception_nat:
  "raises_only_Exception R \<Longrightarrow> call_nat R c s = (Inl e, s') \<Longrightarrow> e = Exception"
  by (auto simp: raises_only_Exception_def call_nat_def split: prod.splits)
     (metis fst_conv)





lemma only_Exception_page_nat:
  "raises_only_Exception R \<Longrightarrow> page_nat R self c s = (Inl e, s') \<Longrightarrow> e = Exception"
  by (auto simp: page_nat_def split: if_splits dest: only_Exception_nat)

lemma catch_Exception_total:
  assumes "\<And>e s'. r = (Inl e, s') \<Longrightarrow> e = Exception"
    and "\<And>s'. \<exists>v. fst (h s') = Inr v"
  shows "\<exists>v. fst (catch_Exception r h) = Inr v"
proof (cases r)
  case (Pair a s')
  show ?thesis
  proof (cases a)
    case (Inl e)
    with Pair assms(1) have "e = Exception" by simp
    with Pair Inl assms(2) show ?thesis by (simp add: catch_Exception_def)
  next
    case (Inr v)
    with Pair show ?thesis by (simp add: catch_Exception_def)
  qed
qed






section \<open>\<^verbatim>\<open>close\<close>\<close>

lemma release_only_Exception:
  "raises_only_Exception R \<Longrightarrow> release R h c s = (Inl e, s') \<Longrightarrow> e = Exception"
  by (auto simp: release_def split: if_splits dest: only_Exception_unit)

lemma release_trace:
  "release R h c s = (r, s') \<Longrightarrow>
     trace s' = trace s @ (if h = None then [] else [c])"
  by (auto simp: release_def call_unit_def split: if_splits prod.splits)

lemma snd_catch_Exception:
  "snd (catch_Exception r (\<lambda>s'. (Inr v, s'))) = snd r"
proof (cases r)
  case (Pair a s')
  then show ?thesis
    by (cases a) (simp_all add: catch_Exception_def split: exn.splits)
qed

lemma close_trace:
  "\<exists>n. trace (snd (close R self s)) = trace s @ take n (releases self)"
proof -
  obtain r1 s1 where a: "release R (page self) PageClose (s\<lparr>close_calls := Suc (close_calls s)\<rparr>) = (r1, s1)"
    by force
  obtain r2 s2 where b: "release R (browser_context self) ContextClose s1 = (r2, s2)" by force
  obtain r3 s3 where c: "release R (browser self) BrowserClose s2 = (r3, s3)" by force
  obtain r4 s4 where d: "release R (playwright self) PlaywrightStop s3 = (r4, s4)" by force
  let ?A = "if page self = None then [] else [PageClose]"
  let ?B = "if browser_context self = None then [] else [ContextClose]"
  let ?C = "if browser self = None then [] else [BrowserClose]"
  let ?D = "if playwright self = None then [] else [PlaywrightStop]"
  have t1: "trace s1 = trace s @ ?A" using release_trace[OF a] by simp
  have t2: "trace s2 = trace s @ ?A @ ?B" using release_trace[OF b] t1 by simp
  have t3: "trace s3 = trace s @ ?A @ ?B @ ?C" using release_trace[OF c] t2 by simp
  have t4: "trace s4 = trace s @ ?A @ ?B @ ?C @ ?D" using release_trace[OF d] t3 by simp
  have k1: "?A = take (length ?A) (releases self)" by (simp add: releases_def)
  have k2: "?A @ ?B = take (length (?A @ ?B)) (releases self)" by (simp add: releases_def)
  have k3: "?A @ ?B @ ?C = take (length (?A @ ?B @ ?C)) (releases self)"
    by (simp add: releases_def)
  have k4: "?A @ ?B @ ?C @ ?D = take (length (?A @ ?B @ ?C @ ?D)) (releases self)"
    by (simp add: releases_def)
  have "snd (close R self s) =
      (case r1 of Inl _ \<Rightarrow> s1 | Inr _ \<Rightarrow>
         (case r2 of Inl _ \<Rightarrow> s2 | Inr _ \<Rightarrow>
            (case r3 of Inl _ \<Rightarrow> s3 | Inr _ \<Rightarrow> s4)))"
    unfolding close_def snd_catch_Exception
    by (simp add: a b c d split: sum.splits)
  then have "snd (close R self s) \<in> {s1, s2, s3, s4}"
    by (simp split: sum.splits)
  then consider "snd (close R self s) = s1" | "snd (close R self s) = s2"
    | "snd (close R self s) = s3" | "snd (close R self s) = s4" by blast
  then show ?thesis
  proof cases
    case 1
    with t1 k1 show ?thesis by metis
  next
    case 2
    with t2 k2 show ?thesis by metis
  next
    case 3
    with t3 k3 show ?thesis by metis
  next
    case 4
    with t4 k4 show ?thesis by metis
  qed
qed

lemma close_never_Exception:
  "fst (close R self s) \<noteq> Inl Exception"
  by (auto simp: close_def catch_Exception_def split: prod.splits sum.splits exn.splits)

lemma close_returns:
  assumes "raises_only_Exception R"
  shows "fst (close R self s) = Inr ()"
proof -
  have "\<exists>v. fst (close R self s) = Inr v"
    unfolding close_def
    by (rule catch_Exception_total)
       (auto split: prod.splits sum.splits dest: release_only_Exception [OF assms])
  then show ?thesis by simp
qed

lemma close_idle:
  assumes "page self = None" "browser_context self = None" "browser self = None"
    "playwright self = None"
  shows "close R self s = (Inr (), s\<lparr>close_calls := Suc (close_calls s)\<rparr>)"
  using assms by (simp add: close_def release_def catch_Exception_def)

lemma release_as_run_releases:
  "release R h c s = run_releases R (if h = None then [] else [c]) s"
  by (simp add: release_def split: prod.splits sum.splits)

lemma run_releases_append:
  "run_releases R (xs @ ys) s =
     (case run_releases R xs s of
        (Inl e, s1) \<Rightarrow> (Inl e, s1)
      | (Inr _, s1) \<Rightarrow> run_releases R ys s1)"
  by (induction xs arbitrary: s) (auto split: prod.splits sum.splits)

lemma close_as_run_releases:
  "close R self s =
     catch_Exception (run_releases R (releases self) (s\<lparr>close_calls := Suc (close_calls s)\<rparr>))
       (\<lambda>s'. (Inr (), s'))"
  by (simp only: close_def releases_def run_releases_append release_as_run_releases)

lemma run_releases_returns:
  "run_releases R cs s = (Inr u, s') \<Longrightarrow> trace s' = trace s @ cs"
  by (induction cs arbitrary: s)
     (auto simp: call_unit_def split: prod.splits sum.splits)

lemma run_releases_raises:
  "run_releases R cs s = (Inl e, s') \<Longrightarrow>
     \<exists>pre c post sp. cs = pre @ c # post \<and> run_releases R pre s = (Inr (), sp) \<and>
        call_unit R c sp = (Inl e, s') \<and> trace s' = trace s @ pre @ [c]"
proof (induction cs arbitrary: s)
  case Nil
  then show ?case by simp
next
  case (Cons x xs)
  obtain r1 s1 where c: "call_unit R x s = (r1, s1)" by force
  have t1: "trace s1 = trace s @ [x]"
    using c by (auto simp: call_unit_def split: prod.splits)
  show ?case
  proof (cases r1)
    case (Inl e1)
    with c Cons.prems have "e1 = e" "s1 = s'" by simp_all
    with c Inl t1 have "x # xs = [] @ x # xs \<and> run_releases R [] s = (Inr (), s) \<and>
        call_unit R x s = (Inl e, s') \<and> trace s' = trace s @ [] @ [x]" by simp
    then show ?thesis by blast
  next
    case (Inr u)
    with c Cons.prems have "run_releases R xs s1 = (Inl e, s')" by simp
    from Cons.IH[OF this] obtain pre c' post sp where
      q: "xs = pre @ c' # post" "run_releases R pre s1 = (Inr (), sp)"
         "call_unit R c' sp = (Inl e, s')" "trace s' = trace s1 @ pre @ [c']" by blast
    from c Inr q t1 have "x # xs = (x # pre) @ c' # post \<and>
        run_releases R (x # pre) s = (Inr (), sp) \<and>
        call_unit R c' sp = (Inl e, s') \<and> trace s' = trace s @ (x # pre) @ [c']" by simp
    then show ?thesis by blast
  qed
qed

text \<open>
  C10, as the code has it. \<^verbatim>\<open>close\<close> catches \<^verbatim>\<open>Exception\<close>: it never raises an
  \<^verbatim>\<open>Exception\<close> to its caller, and when the runtime raises nothing outside \<^verbatim>\<open>Exception\<close>
  it returns. An unset handle is skipped: \<^verbatim>\<open>close\<close> performs the releases of the handles
  that are set, in the order page, context, browser, Playwright, up to the first one that
  raises. When all of them return, exactly these calls were issued; when one raises, the
  calls issued end with it and the handles after it are not released (an \<^verbatim>\<open>Exception\<close> is
  then swallowed, anything else propagates). With no handle set at all, as before
  \<^verbatim>\<open>start_browser\<close>, it returns without calling the runtime.
\<close>

theorem close_swallows_Exception:
  "fst (close R self s) \<noteq> Inl Exception \<and>
   (raises_only_Exception R \<longrightarrow> fst (close R self s) = Inr ()) \<and>
   (\<exists>n. trace (snd (close R self s)) = trace s @ take n (releases self)) \<and>
   (page self = None \<and> browser_context self = None \<and> browser self = None \<and>
    playwright self = None \<longrightarrow>
      close R self s = (Inr (), s\<lparr>close_calls := Suc (close_calls s)\<rparr>)) \<and>
   close R self s =
     catch_Exception (run_releases R (releases self) (s\<lparr>close_calls := Suc (close_calls s)\<rparr>))
       (\<lambda>s'. (Inr (), s')) \<and>
   (fst (run_releases R (releases self) (s\<lparr>close_calls := Suc (close_calls s)\<rparr>)) = Inr () \<longrightarrow>
      trace (snd (close R self s)) = trace s @ releases self) \<and>
   (run_releases R (releases self) (s\<lparr>close_calls := Suc (close_calls s)\<rparr>) = (Inl e, s') \<longrightarrow>
      (\<exists>pre c post sp. releases self = pre @ c # post \<and>
         run_releases R pre (s\<lparr>close_calls := Suc (close_calls s)\<rparr>) = (Inr (), sp) \<and>
         call_unit R c sp = (Inl e, s') \<and>
         trace (snd (close R self s)) = trace s @ pre @ [c])) \<and>
   (page self \<noteq> None \<and> fst (unit_op R PageClose (world s)) = Inl e \<longrightarrow>
      trace (snd (close R self s)) = trace s @ [PageClose])"
proof -
  let ?s = "s\<lparr>close_calls := Suc (close_calls s)\<rparr>"
  have sn: "snd (close R self s) = snd (run_releases R (releases self) ?s)"
    by (simp add: close_as_run_releases snd_catch_Exception)
  have a: "fst (close R self s) \<noteq> Inl Exception" by (rule close_never_Exception)
  have b: "fst (close R self s) = Inr ()" if "raises_only_Exception R"
    using that by (rule close_returns)
  have c: "\<exists>n. trace (snd (close R self s)) = trace s @ take n (releases self)"
    by (rule close_trace)
  have d: "close R self s = (Inr (), ?s)"
    if "page self = None \<and> browser_context self = None \<and> browser self = None \<and>
        playwright self = None"
    using that by (simp add: close_idle)
  have f: "trace (snd (close R self s)) = trace s @ releases self"
    if "fst (run_releases R (releases self) ?s) = Inr ()"
  proof -
    from that have "run_releases R (releases self) ?s =
        (Inr (), snd (run_releases R (releases self) ?s))"
      by (metis prod.collapse)
    from run_releases_returns[OF this] show ?thesis by (simp add: sn)
  qed
  have g: "\<exists>pre c post sp. releases self = pre @ c # post \<and>
         run_releases R pre ?s = (Inr (), sp) \<and> call_unit R c sp = (Inl e, s') \<and>
         trace (snd (close R self s)) = trace s @ pre @ [c]"
    if "run_releases R (releases self) ?s = (Inl e, s')"
    using run_releases_raises[OF that] that by (simp add: sn)
  have h: "trace (snd (close R self s)) = trace s @ [PageClose]"
    if "page self \<noteq> None \<and> fst (unit_op R PageClose (world s)) = Inl e"
  proof -
    from that obtain w where u: "unit_op R PageClose (world s) = (Inl e, w)"
      by (metis prod.collapse)
    from that obtain rest where l: "releases self = PageClose # rest"
      by (simp add: releases_def)
    show ?thesis by (simp add: sn l call_unit_def u)
  qed
  from a b c d f g h close_as_run_releases show ?thesis by blast
qed

text \<open>
  On \<open>failing\<close>, with all handles set, \<^verbatim>\<open>page.close()\<close> raises an \<^verbatim>\<open>Exception\<close>:
  \<^verbatim>\<open>close\<close> returns and nothing else was released. On \<open>quiet\<close> all four are released.
  With no handle set nothing is called, whatever the runtime.
\<close>

theorem close_swallows_Exception_witness:
  "raises_only_Exception failing \<and> fst (close failing started s0) = Inr () \<and>
   trace (snd (close failing started s0)) = [PageClose] \<and>
   trace (snd (close quiet started s0)) =
     [PageClose, ContextClose, BrowserClose, PlaywrightStop] \<and>
   page idle = None \<and> browser_context idle = None \<and> browser idle = None \<and>
   playwright idle = None \<and>
   close interrupted_close idle s0 = (Inr (), s0\<lparr>close_calls := Suc (close_calls s0)\<rparr>)"
proof -
  have r: "raises_only_Exception failing"
    by (simp add: raises_only_Exception_def failing_def quiet_def)
  have i: "page idle = None \<and> browser_context idle = None \<and> browser idle = None \<and>
      playwright idle = None"
    by (simp add: idle_def)
  have p: "page started \<noteq> None \<and> fst (unit_op failing PageClose (world s0)) = Inl Exception"
    by (simp add: started_def idle_def failing_def quiet_def)
  have q: "fst (run_releases quiet (releases started) (s0\<lparr>close_calls := Suc (close_calls s0)\<rparr>))
      = Inr ()"
    by (simp add: releases_def started_def idle_def quiet_def call_unit_def)
  have t: "trace s0 = []" by (simp add: s0_def)
  have l: "releases started = [PageClose, ContextClose, BrowserClose, PlaywrightStop]"
    by (simp add: releases_def started_def idle_def)
  from r i p q close_swallows_Exception [of failing started s0 Exception]
    close_swallows_Exception [of quiet started s0]
    close_swallows_Exception [of interrupted_close idle s0]
  show ?thesis unfolding t l by (metis append_Nil)
qed

text \<open>
  C10 as stated fails: a \<^verbatim>\<open>KeyboardInterrupt\<close> raised while the page is being closed is not
  an \<^verbatim>\<open>Exception\<close> and leaves \<^verbatim>\<open>close\<close>.
\<close>

theorem close_raises_KeyboardInterrupt:
  "fst (close interrupted_close started s0) = Inl KeyboardInterrupt"
  by (simp add: close_def release_def interrupted_close_def quiet_def started_def idle_def s0_def
        call_unit_def catch_Exception_def)

section \<open>\<^verbatim>\<open>main\<close>: teardown\<close>

text \<open>No method but \<^verbatim>\<open>close\<close> changes the count of the invocations of \<^verbatim>\<open>close\<close>.\<close>

lemma cc_call_unit: "call_unit R c s = (r, s') \<Longrightarrow> close_calls s' = close_calls s"
  by (auto simp: call_unit_def split: prod.splits)

lemma cc_call_bool: "call_bool R c s = (r, s') \<Longrightarrow> close_calls s' = close_calls s"
  by (auto simp: call_bool_def split: prod.splits)

lemma cc_call_nat: "call_nat R c s = (r, s') \<Longrightarrow> close_calls s' = close_calls s"
  by (auto simp: call_nat_def split: prod.splits)

lemma cc_call_str: "call_str R c s = (r, s') \<Longrightarrow> close_calls s' = close_calls s"
  by (auto simp: call_str_def split: prod.splits)

lemma cc_page_unit: "page_unit R self c s = (r, s') \<Longrightarrow> close_calls s' = close_calls s"
  by (auto simp: page_unit_def split: if_splits dest: cc_call_unit)

lemma cc_page_bool: "page_bool R self c s = (r, s') \<Longrightarrow> close_calls s' = close_calls s"
  by (auto simp: page_bool_def split: if_splits dest: cc_call_bool)

lemma cc_page_nat: "page_nat R self c s = (r, s') \<Longrightarrow> close_calls s' = close_calls s"
  by (auto simp: page_nat_def split: if_splits dest: cc_call_nat)

lemma cc_page_str: "page_str R self c s = (r, s') \<Longrightarrow> close_calls s' = close_calls s"
  by (auto simp: page_str_def split: if_splits dest: cc_call_str)

lemma cc_release: "release R h c s = (r, s') \<Longrightarrow> close_calls s' = close_calls s"
  by (auto simp: release_def split: if_splits dest: cc_call_unit)

lemma cc_catch_Exception:
  assumes "catch_Exception r h = (v, s')"
    and "close_calls (snd r) = n"
    and "\<And>s1 v1 s2. h s1 = (v1, s2) \<Longrightarrow> close_calls s2 = close_calls s1"
  shows "close_calls s' = n"
proof (cases r)
  case (Pair a s1)
  show ?thesis
  proof (cases "a = Inl Exception")
    case True
    with Pair assms(1) have "h s1 = (v, s')" by (simp add: catch_Exception_def)
    from assms(3)[OF this] Pair assms(2) show ?thesis by simp
  next
    case False
    with Pair assms(1) have "s' = s1"
      by (cases a) (auto simp: catch_Exception_def split: exn.splits)
    with Pair assms(2) show ?thesis by simp
  qed
qed

lemma cc_run_actions:
  "run_actions R self cs s = (r, s') \<Longrightarrow> close_calls s' = close_calls s"
  by (induction cs arbitrary: s)
     (auto split: prod.splits sum.splits dest: cc_page_unit)

lemma cc_attempt:
  "attempt R self t acts sel s = (r, s') \<Longrightarrow> close_calls s' = close_calls s"
  by (auto simp: attempt_def split: prod.splits sum.splits bool.splits
           dest!: cc_page_bool cc_run_actions)

lemma cc_try_selectors:
  "try_selectors R self t acts sels s = (r, s') \<Longrightarrow> close_calls s' = close_calls s"
  by (induction sels arbitrary: s)
     (auto split: prod.splits bool.splits dest!: cc_attempt)

lemma cc_is_logged_in:
  "is_logged_in R self s = (r, s') \<Longrightarrow> close_calls s' = close_calls s"
  by (auto simp: is_logged_in_def split: prod.splits bool.splits dest!: cc_try_selectors)

lemma cc_login_form:
  "login_form R self s = (r, s') \<Longrightarrow> close_calls s' = close_calls s"
  by (auto simp: login_form_def split: prod.splits sum.splits bool.splits if_splits
           dest!: cc_try_selectors cc_page_unit cc_is_logged_in)

lemma cc_login:
  assumes "login R self s = (r, s')"
  shows "close_calls s' = close_calls s"
  using assms unfolding login_def
  by (rule cc_catch_Exception)
     (auto simp: cc_login_form [OF surjective_pairing]
           split: prod.splits sum.splits bool.splits if_splits
           dest!: cc_page_unit cc_is_logged_in)

lemma cc_navigate_to_jobs:
  assumes "navigate_to_jobs R self s = (r, s')"
  shows "close_calls s' = close_calls s"
  using assms unfolding navigate_to_jobs_def
  by (rule cc_catch_Exception)
     (auto simp: cc_page_unit [OF surjective_pairing]
           split: prod.splits sum.splits bool.splits if_splits
           dest!: cc_page_unit cc_page_str cc_try_selectors)

lemma cc_extract_rows:
  "extract_rows R rows jobs s = (r, s') \<Longrightarrow> close_calls s' = close_calls s"
proof (induction rows arbitrary: jobs s)
  case Nil
  then show ?case by simp
next
  case (Cons a rows)
  obtain i row where a: "a = (i, row)" by (cases a)
  from Cons.prems show ?case unfolding a
    by (auto split: prod.splits sum.splits if_splits
             dest!: cc_call_nat cc_call_str Cons.IH)
qed

lemma cc_scan_selectors:
  "scan_selectors R self sels jobs s = (r, s') \<Longrightarrow> close_calls s' = close_calls s"
  by (induction sels arbitrary: jobs s)
     (auto split: prod.splits sum.splits if_splits dest!: cc_page_nat cc_extract_rows)

lemma cc_list_jobs:
  "list_jobs R self s = (r, s') \<Longrightarrow> close_calls s' = close_calls s"
  by (auto simp: list_jobs_def split: prod.splits sum.splits if_splits
           dest!: cc_navigate_to_jobs cc_page_unit cc_page_str cc_scan_selectors)

lemma cc_row_pass:
  "row_pass R self job_name s = (r, s') \<Longrightarrow> close_calls s' = close_calls s"
  by (auto simp: row_pass_def split: prod.splits sum.splits bool.splits
           dest!: cc_page_bool cc_call_bool cc_call_unit cc_page_unit)

lemma cc_fallback_pass:
  "fallback_pass R self job_name s = (r, s') \<Longrightarrow> close_calls s' = close_calls s"
  by (auto simp: fallback_pass_def dest: cc_try_selectors)

lemma cc_run_job:
  assumes "run_job R self job_name s = (r, s')"
  shows "close_calls s' = close_calls s"
proof -
  obtain r1 s1 where n: "navigate_to_jobs R self s = (r1, s1)" by force
  obtain r2 s2 where w: "page_unit R self (WaitForTimeout 2000) s1 = (r2, s2)" by force
  have c1: "close_calls s1 = close_calls s" using cc_navigate_to_jobs[OF n] .
  have c2: "close_calls s2 = close_calls s" using cc_page_unit[OF w] c1 by simp
  show ?thesis
  proof (cases r1)
    case (Inl e)
    with assms n c1 show ?thesis by (simp add: run_job_def)
  next
    case (Inr u)
    show ?thesis
    proof (cases r2)
      case (Inl e)
      with assms n w \<open>r1 = Inr u\<close> c2 show ?thesis by (simp add: run_job_def)
    next
      case Inr2: (Inr u2)
      with assms n w Inr have
        "catch_Exception (row_pass R self job_name s2)
           (\<lambda>s3. case fallback_pass R self job_name s3 of (ok, s4) \<Rightarrow> (Inr ok, s4)) = (r, s')"
        by (simp add: run_job_def)
      then have "close_calls s' = close_calls s2"
        by (rule cc_catch_Exception)
           (auto split: prod.splits dest: cc_fallback_pass cc_row_pass
                 intro: cc_row_pass [OF surjective_pairing])
      with c2 show ?thesis by simp
    qed
  qed
qed

lemma cc_run_each:
  "run_each R self jobs results s = (r, s') \<Longrightarrow> close_calls s' = close_calls s"
  by (induction jobs arbitrary: results s)
     (auto split: prod.splits sum.splits dest!: cc_run_job cc_page_unit)

lemma cc_run_named:
  "run_named R self names results s = (r, s') \<Longrightarrow> close_calls s' = close_calls s"
  by (induction names arbitrary: results s)
     (auto split: prod.splits sum.splits dest!: cc_run_job)

lemma cc_run_all_jobs:
  "run_all_jobs R self s = (r, s') \<Longrightarrow> close_calls s' = close_calls s"
  by (auto simp: run_all_jobs_def split: prod.splits sum.splits
           dest!: cc_list_jobs cc_run_each)

lemma cc_main_command:
  "main_command R a self s = (r, s') \<Longrightarrow> close_calls s' = close_calls s"
  by (auto simp: main_command_def split: prod.splits sum.splits if_splits option.splits list.splits
           dest!: cc_list_jobs cc_run_all_jobs cc_run_named cc_run_job)

lemma cc_start_browser:
  "start_browser R self s = (r, self', s') \<Longrightarrow> close_calls s' = close_calls s"
  by (auto simp: start_browser_def Let_def split: prod.splits sum.splits dest!: cc_call_unit)

lemma cc_main_try:
  "main_try R a self s = (r, self', s') \<Longrightarrow> close_calls s' = close_calls s"
  by (auto simp: main_try_def split: prod.splits sum.splits if_splits
           dest!: cc_start_browser cc_login cc_call_str cc_main_command cc_page_unit)

lemma cc_close: "close_calls (snd (close R self s)) = Suc (close_calls s)"
proof -
  obtain r1 s1 where a: "release R (page self) PageClose (s\<lparr>close_calls := Suc (close_calls s)\<rparr>) = (r1, s1)"
    by force
  obtain r2 s2 where b: "release R (browser_context self) ContextClose s1 = (r2, s2)" by force
  obtain r3 s3 where c: "release R (browser self) BrowserClose s2 = (r3, s3)" by force
  obtain r4 s4 where d: "release R (playwright self) PlaywrightStop s3 = (r4, s4)" by force
  have t1: "close_calls s1 = Suc (close_calls s)" using cc_release[OF a] by simp
  have t2: "close_calls s2 = Suc (close_calls s)" using cc_release[OF b] t1 by simp
  have t3: "close_calls s3 = Suc (close_calls s)" using cc_release[OF c] t2 by simp
  have t4: "close_calls s4 = Suc (close_calls s)" using cc_release[OF d] t3 by simp
  have "snd (close R self s) =
      (case r1 of Inl _ \<Rightarrow> s1 | Inr _ \<Rightarrow>
         (case r2 of Inl _ \<Rightarrow> s2 | Inr _ \<Rightarrow>
            (case r3 of Inl _ \<Rightarrow> s3 | Inr _ \<Rightarrow> s4)))"
    unfolding close_def snd_catch_Exception
    by (simp add: a b c d split: sum.splits)
  with t1 t2 t3 t4 show ?thesis by (simp split: sum.splits)
qed

text \<open>
  C8: every run of the \<^verbatim>\<open>try\<close> statement of \<^verbatim>\<open>main\<close> invokes \<^verbatim>\<open>close()\<close> exactly once,
  whatever the command line, the state of the automation object and the behaviour of the
  runtime: whether \<^verbatim>\<open>start_browser\<close>, \<^verbatim>\<open>login\<close>, the listing or a trigger returned,
  failed or raised, and whatever was raised (also by the handler or by \<^verbatim>\<open>close\<close> itself).
\<close>

theorem main_closes_once:
  "close_calls (snd (main R a automation s)) = Suc (close_calls s)"
proof -
  obtain r self1 s1 where
    t: "main_try R a (if arg_headless a then automation\<lparr>headless := True\<rparr> else automation) s
          = (r, self1, s1)"
    by (metis prod_cases3)
  have c1: "close_calls s1 = close_calls s" using cc_main_try[OF t] .
  obtain r' s2 where
    h: "(case r of
           Inr _ \<Rightarrow> (Inr (), s1)
         | Inl KeyboardInterrupt \<Rightarrow> (Inr (), s1)
         | Inl Exception \<Rightarrow> release R (page self1) (Screenshot ''error_screenshot.png'') s1
         | Inl BaseException \<Rightarrow> (Inl BaseException, s1)) = (r', s2)"
    by force
  have c2: "close_calls s2 = close_calls s1"
    using h by (auto split: sum.splits exn.splits dest: cc_release)
  have "snd (main R a automation s) = snd (close R self1 s2)"
    unfolding main_def t by (simp add: h split: prod.splits sum.splits)
  with cc_close[of R self1 s2] c1 c2 show ?thesis by simp
qed

text \<open>
  A run in which \<^verbatim>\<open>start_browser\<close> raises at its first step, and a run of
  \<^verbatim>\<open>--list-jobs\<close> on a blank page: one invocation each.
\<close>

theorem main_closes_once_witness:
  "close_calls (snd (main failing list_only idle s0)) = 1 \<and>
   close_calls (snd (main quiet list_only idle s0)) = 1"
  using main_closes_once [of failing list_only idle s0]
    main_closes_once [of quiet list_only idle s0]
  by (simp add: s0_def)

section \<open>\<^verbatim>\<open>list_jobs\<close>\<close>

lemma extract_rows_appends:
  "extract_rows R rows jobs s = (jobs', s') \<Longrightarrow>
     \<exists>new. jobs' = jobs @ new \<and> length new \<le> length rows \<and>
        (\<forall>j \<in> set new. (index j, element j) \<in> set rows)"
proof (induction rows arbitrary: jobs s)
  case Nil
  then show ?case by simp
next
  case (Cons a rows)
  obtain i row where a: "a = (i, row)" by (cases a)
  from Cons.prems obtain jobs1 s1 where
    step: "extract_rows R rows jobs1 s1 = (jobs', s')"
    and j1: "jobs1 = jobs \<or> (\<exists>inner. jobs1 = jobs @ [\<lparr>name = strip inner, index = i, element = row\<rparr>])"
    unfolding a by (auto split: prod.splits sum.splits if_splits)
  from Cons.IH[OF step] obtain new where
    n: "jobs' = jobs1 @ new" "length new \<le> length rows"
       "\<forall>j \<in> set new. (index j, element j) \<in> set rows" by blast
  from j1 show ?case
  proof
    assume "jobs1 = jobs"
    with n a have "jobs' = jobs @ new \<and> length new \<le> length (a # rows) \<and>
        (\<forall>j \<in> set new. (index j, element j) \<in> set (a # rows))" by auto
    then show ?thesis by blast
  next
    assume "\<exists>inner. jobs1 = jobs @ [\<lparr>name = strip inner, index = i, element = row\<rparr>]"
    then obtain inner where t: "jobs1 = jobs @ [\<lparr>name = strip inner, index = i, element = row\<rparr>]"
      by blast
    let ?new = "\<lparr>name = strip inner, index = i, element = row\<rparr> # new"
    from n t a have "jobs' = jobs @ ?new \<and> length ?new \<le> length (a # rows) \<and>
        (\<forall>j \<in> set ?new. (index j, element j) \<in> set (a # rows))" by auto
    then show ?thesis by blast
  qed
qed




lemma scan_selectors_split:
  "scan_selectors R self sels [] s = (jobs, s') \<Longrightarrow> jobs \<noteq> [] \<Longrightarrow>
     \<exists>pre selector post sc sd n. sels = pre @ selector # post \<and>
        scan_selectors R self pre [] s = ([], sc) \<and>
        page_nat R self (LocatorAll (Sel selector)) sc = (Inr n, sd) \<and> 0 < n \<and>
        extract_rows R (enumerate 0 (take 50 (map (Nth (Sel selector)) [0..<n]))) [] sd = (jobs, s')"
proof (induction sels arbitrary: s)
  case Nil
  then show ?case by simp
next
  case (Cons x xs)
  obtain r1 s1 where p: "page_nat R self (LocatorAll (Sel x)) s = (r1, s1)" by force
  let ?rows = "\<lambda>n. enumerate 0 (take 50 (map (Nth (Sel x)) [0..<n]))"
  consider (here) n where "r1 = Inr n" "0 < n" "extract_rows R (?rows n) [] s1 = (jobs, s')"
    | (later) s2 where "scan_selectors R self xs [] s2 = (jobs, s')"
        "scan_selectors R self [x] [] s = ([], s2)"
    using Cons.prems p
    by (auto split: prod.splits sum.splits if_splits)
  then show ?case
  proof cases
    case here
    with p have "x # xs = [] @ x # xs \<and> scan_selectors R self [] [] s = ([], s) \<and>
        page_nat R self (LocatorAll (Sel x)) s = (Inr n, s1) \<and> 0 < n \<and>
        extract_rows R (?rows n) [] s1 = (jobs, s')" by simp
    then show ?thesis by blast
  next
    case later
    from Cons.IH[OF later(1) Cons.prems(2)] obtain pre selector post sc sd n where
      q: "xs = pre @ selector # post" "scan_selectors R self pre [] s2 = ([], sc)"
         "page_nat R self (LocatorAll (Sel selector)) sc = (Inr n, sd)" "0 < n"
         "extract_rows R (enumerate 0 (take 50 (map (Nth (Sel selector)) [0..<n]))) [] sd = (jobs, s')"
      by blast
    have "scan_selectors R self (x # pre) [] s = ([], sc)"
      using later(2) q(2) by (auto split: prod.splits sum.splits if_splits)
    with q have "x # xs = (x # pre) @ selector # post \<and>
        scan_selectors R self (x # pre) [] s = ([], sc) \<and>
        page_nat R self (LocatorAll (Sel selector)) sc = (Inr n, sd) \<and> 0 < n \<and>
        extract_rows R (enumerate 0 (take 50 (map (Nth (Sel selector)) [0..<n]))) [] sd = (jobs, s')"
      by simp
    then show ?thesis by blast
  qed
qed


lemma list_jobs_result:
  assumes "list_jobs R self s = (Inr jobs, s')" and "jobs \<noteq> []"
  shows "\<exists>sa sb. navigate_to_jobs R self s = (Inr (), sa) \<and>
           page_unit R self (WaitForTimeout 2000) sa = (Inr (), sb) \<and>
           scan_selectors R self job_item_selectors [] sb = (jobs, s')"
  using assms
  by (auto simp: list_jobs_def split: prod.splits sum.splits if_splits)

lemma extract_rows_many_rows:
  "fst (extract_rows many_rows rows jobs s) =
     jobs @ map (\<lambda>(i, row). \<lparr>name = ''Job'', index = i, element = row\<rparr>) rows"
  by (induction rows arbitrary: jobs s)
     (auto simp: many_rows_def quiet_def call_nat_def call_str_def strip_def isspace_def
           split: prod.splits)

lemma rows_as_map:
  "map (\<lambda>(i, row). g i row) (enumerate 0 (take m (map f [0..<n]))) =
     map (\<lambda>i. g i (f i)) [0..<min m n]"
  by (simp add: list_eq_iff_nth_eq nth_enumerate_eq)

lemma fifty_rows:
  \<open>map (\<lambda>(i, row). \<lparr>name = ''Job'', index = i, element = row\<rparr>)
     (enumerate 0 (take 50 (map (Nth (Sel ''tr[data-testid*="job"]'')) [0..<60]))) = fifty_jobs\<close>
  unfolding rows_as_map fifty_jobs_def by simp


lemma list_jobs_many_rows: "fst (list_jobs many_rows started s0) = Inr fifty_jobs"
proof -
  let ?sel = \<open>''tr[data-testid*="job"]''\<close>
  let ?s1 = "settled_page\<lparr>trace := trace settled_page @ [LocatorAll (Sel ?sel)]\<rparr>"
  let ?rows = "enumerate 0 (take 50 (map (Nth (Sel ?sel)) [0..<60]))"
  have n: "navigate_to_jobs many_rows started s0 = (Inr (), on_jobs_page)"
    by (rule navigate_first_link) (simp_all add: many_rows_def quiet_def)
  have w: "page_unit many_rows started (WaitForTimeout 2000) on_jobs_page = (Inr (), settled_page)"
    by (rule settle_wait) (simp add: many_rows_def quiet_def)
  have a: "page_nat many_rows started (LocatorAll (Sel ?sel)) settled_page = (Inr 60, ?s1)"
    by (simp add: page_nat_def call_nat_def many_rows_def quiet_def started_def idle_def
          settled_page_def on_jobs_page_def)
  have f: "fifty_jobs \<noteq> []" by (simp add: fifty_jobs_def)
  have "fst (extract_rows many_rows ?rows [] ?s1) = fifty_jobs"
    unfolding extract_rows_many_rows append_Nil by (rule fifty_rows)
  then obtain s2 where e: "extract_rows many_rows ?rows [] ?s1 = (fifty_jobs, s2)"
    by (metis prod.collapse)
  have "scan_selectors many_rows started (?sel # rest) [] settled_page = (fifty_jobs, s2)" for rest
    apply (subst scan_selectors.simps(2))
    apply (subst a)
    apply (simp only: prod.case sum.case)
    apply (subst e)
    apply (simp add: f)
    done
  then have "scan_selectors many_rows started job_item_selectors [] settled_page = (fifty_jobs, s2)"
    unfolding job_item_selectors_def .
  then show ?thesis
    using f by (simp add: list_jobs_def n w)
qed

text \<open>
  C6: whatever the page does, \<^verbatim>\<open>list_jobs\<close> returns at most 50 job records (the maximum
  is the constant of \<^verbatim>\<open>elements[:50]\<close>), also when a selector matches more than 50 rows:
  the accumulator is empty whenever a selector is tried, and one selector adds at most one
  record for each of its first 50 rows.
\<close>

theorem list_jobs_at_most_50:
  assumes "list_jobs R self s = (Inr jobs, s')"
  shows "length jobs \<le> 50"
proof (cases "jobs = []")
  case True
  then show ?thesis by simp
next
  case False
  from list_jobs_result[OF assms False] obtain sb where
    "scan_selectors R self job_item_selectors [] sb = (jobs, s')" by blast
  from scan_selectors_split[OF this False] obtain selector sd n where
    e: "extract_rows R (enumerate 0 (take 50 (map (Nth (Sel selector)) [0..<n]))) [] sd = (jobs, s')"
    by blast
  from extract_rows_appends[OF e] have
    "length jobs \<le> length (enumerate 0 (take 50 (map (Nth (Sel selector)) [0..<n])))" by auto
  then show ?thesis by simp
qed

text \<open>
  On \<open>many_rows\<close> the first selector matches 60 rows, each with the name \<^verbatim>\<open>Job\<close>;
  \<^verbatim>\<open>list_jobs\<close> returns the records of the first 50.
\<close>

theorem list_jobs_at_most_50_witness:
  "fst (nat_op many_rows (LocatorAll (Sel (hd job_item_selectors))) ()) = Inr 60 \<and>
   fst (list_jobs many_rows started s0) = Inr fifty_jobs \<and> length fifty_jobs = 50 \<and>
   length fifty_jobs \<le> 50"
proof -
  have "list_jobs many_rows started s0 = (Inr fifty_jobs, snd (list_jobs many_rows started s0))"
    using list_jobs_many_rows by (metis prod.collapse)
  from list_jobs_at_most_50 [OF this] list_jobs_many_rows show ?thesis
    by (simp add: many_rows_def quiet_def fifty_jobs_def)
qed









end
